theory Spec2Isabelle
  imports Complex_Main
begin

section \<open>Python and array-library values\<close>

text \<open>
  Exceptions of the Python code are values. \<open>ZeroDivisionError\<close> is the integer
  division by zero; \<open>ValueError\<close> is what the array library raises on an empty
  reduction or on operands whose shapes do not agree; \<open>RuntimeError\<close> and
  \<open>ImportError\<close> are the other two classes the modal analysis catches, and
  \<open>TypeError\<close> is one it does not catch. \<open>BadStep\<close> is the array store refusing a
  slice step below one, and \<open>BadRank\<close> is the array store refusing an index with more
  axes than the dataset has.
\<close>

datatype py_error =
  ZeroDivisionError | ValueError | TypeError | RuntimeError | ImportError | BadStep | BadRank

text \<open>
  A dataset or array of rank one or two. A matrix is the list of its rows.
  \<open>shape[0]\<close> is the number of elements of a vector and the number of rows of a
  matrix.
\<close>

datatype 'a ndarray = Vector "'a list" | Matrix "'a list list"

fun leading_dim :: "'a ndarray \<Rightarrow> nat" where
  "leading_dim (Vector xs) = length xs"
| "leading_dim (Matrix rows) = length rows"

text \<open>An object stored under a path of the file: a group or a dataset.\<close>

datatype 'a h5_object = Group | Dataset "'a ndarray"

section \<open>The subsampling loader (visualize\_results.py)\<close>

text \<open>
  The slice \<open>xs[::step]\<close> for a step of at least one: the first element, then the
  first element of what is left after skipping \<open>step - 1\<close> more, and so on.
\<close>

fun strided :: "nat \<Rightarrow> 'a list \<Rightarrow> 'a list" where
  "strided step [] = []"
| "strided step (x # xs) = x # strided step (drop (step - 1) xs)"

text \<open>\<open>dataset[::step]\<close>: the step applies to the first axis only.\<close>

definition slice_first_axis :: "'a ndarray \<Rightarrow> int \<Rightarrow> py_error + 'a ndarray" where
  "slice_first_axis dataset step =
     (if step < 1 then Inl BadStep
      else (case dataset of
              Vector xs \<Rightarrow> Inr (Vector (strided (nat step) xs))
            | Matrix rows \<Rightarrow> Inr (Matrix (strided (nat step) rows))))"

text \<open>\<open>dataset[::step, ::step]\<close>: two indices, so the dataset needs two axes.\<close>

definition slice_both_axes :: "'a ndarray \<Rightarrow> int \<Rightarrow> py_error + 'a ndarray" where
  "slice_both_axes dataset step =
     (case dataset of
        Vector xs \<Rightarrow> Inl BadRank
      | Matrix rows \<Rightarrow>
          (if step < 1 then Inl BadStep
           else Inr (Matrix (map (strided (nat step)) (strided (nat step) rows)))))"

text \<open>Python's \<open>n // max_size\<close> on integers: floor division, raising on zero.\<close>

definition py_floordiv :: "int \<Rightarrow> int \<Rightarrow> py_error + int" where
  "py_floordiv a b = (if b = 0 then Inl ZeroDivisionError else Inr (a div b))"

definition load_dataset_with_subsampling ::
  "(string \<rightharpoonup> 'a h5_object) \<Rightarrow> string \<Rightarrow> int \<Rightarrow> bool \<Rightarrow> py_error + 'a ndarray option" where
  "load_dataset_with_subsampling hdf5_file dataset_path max_size is_vector =
     (case hdf5_file dataset_path of
        None \<Rightarrow> Inr None
      | Some Group \<Rightarrow> Inr None
      | Some (Dataset dataset) \<Rightarrow>
          (let n = int (leading_dim dataset) in
           if n > max_size then
             (case py_floordiv n max_size of
                Inl e \<Rightarrow> Inl e
              | Inr step \<Rightarrow>
                  (if is_vector then
                     (case slice_first_axis dataset step of
                        Inl e \<Rightarrow> Inl e | Inr a \<Rightarrow> Inr (Some a))
                   else
                     (case slice_both_axes dataset step of
                        Inl e \<Rightarrow> Inl e | Inr a \<Rightarrow> Inr (Some a))))
           else Inr (Some dataset)))"

section \<open>Modal analysis (visualize\_results.py, plot\_eigenvalue\_analysis)\<close>

text \<open>
  float64 values are idealised as real numbers throughout; the one float64 value the
  models keep apart is NaN, written \<open>None\<close>, which \<open>np.sqrt\<close> returns on a
  negative argument instead of raising.
\<close>

text \<open>\<open>matrix[idx, idx]\<close> with \<open>idx = slice(0, k)\<close>.\<close>

definition leading_block :: "nat \<Rightarrow> 'a list list \<Rightarrow> 'a list list" where
  "leading_block k matrix = map (take k) (take k matrix)"

text \<open>Lines 170 to 178: the pair \<open>(K, M)\<close> handed to the eigen-solver.\<close>

definition modal_matrices :: "'a list list \<Rightarrow> 'a list list \<Rightarrow> 'a list list \<times> 'a list list" where
  "modal_matrices stiffness mass =
     (let n = length stiffness in
      if n > 1000 then (leading_block 500 stiffness, leading_block 500 mass)
      else (stiffness, mass))"

text \<open>A square matrix of dimension \<open>n\<close>: \<open>n\<close> rows of \<open>n\<close> entries.\<close>

definition square_matrix :: "nat \<Rightarrow> 'a list list \<Rightarrow> bool" where
  "square_matrix n matrix = (length matrix = n \<and> list_all (\<lambda>row. length row = n) matrix)"

definition np_sqrt :: "real \<Rightarrow> real option" where
  "np_sqrt x = (if x < 0 then None else Some (sqrt x))"






section \<open>Structural response (visualize\_results.py, plot\_response\_analysis)\<close>

text \<open>\<open>xs[start::step]\<close> for a step of at least one.\<close>

definition slice_from :: "nat \<Rightarrow> nat \<Rightarrow> 'a list \<Rightarrow> 'a list" where
  "slice_from start step xs = strided step (drop start xs)"

definition np_zeros_like :: "real list \<Rightarrow> real list" where
  "np_zeros_like xs = replicate (length xs) 0"

text \<open>
  Element-wise addition of two one-dimensional arrays: equal lengths add pairwise, an
  array of length one is broadcast, any other pair of lengths raises.
\<close>

definition np_add :: "real list \<Rightarrow> real list \<Rightarrow> py_error + real list" where
  "np_add xs ys =
     (if length xs = length ys then Inr (map2 (+) xs ys)
      else if length xs = 1 then Inr (map (\<lambda>y. hd xs + y) ys)
      else if length ys = 1 then Inr (map (\<lambda>x. x + hd ys) xs)
      else Inl ValueError)"

definition np_square :: "real list \<Rightarrow> real list" where
  "np_square xs = map (\<lambda>x. x ^ 2) xs"

text \<open>
  The plotting library draws \<open>y\<close> against the node positions only when both have the
  same length, and raises otherwise.
\<close>

definition plot_xy :: "nat \<Rightarrow> real list \<Rightarrow> py_error + unit" where
  "plot_xy n_positions ys = (if length ys = n_positions then Inr () else Inl ValueError)"

record response =
  n_nodes :: nat
  disp_x :: "real list"
  disp_y :: "real list"
  disp_z :: "real list"
  force_x :: "real list"
  force_y :: "real list"
  disp_magnitude :: "real option list"

text \<open>Lines 226 to 250: the per-node components and the magnitude of the displacement.\<close>

definition plot_response_analysis :: "real list \<Rightarrow> real list \<Rightarrow> py_error + response" where
  "plot_response_analysis force displacement =
     (let nn = length force div 6;
          dx = take nn (slice_from 0 6 displacement);
          dy = (if length displacement > 1 then take nn (slice_from 1 6 displacement)
                else np_zeros_like dx);
          dz = (if length displacement > 2 then take nn (slice_from 2 6 displacement)
                else np_zeros_like dx);
          fx = take nn (slice_from 0 6 force);
          fy = (if length force > 1 then take nn (slice_from 1 6 force) else np_zeros_like fx)
      in
      case plot_xy nn dx of Inl e \<Rightarrow> Inl e | Inr _ \<Rightarrow>
      (case (if length displacement > 1 then plot_xy nn dy else Inr ()) of Inl e \<Rightarrow> Inl e | Inr _ \<Rightarrow>
      (case (if length displacement > 2 then plot_xy nn dz else Inr ()) of Inl e \<Rightarrow> Inl e | Inr _ \<Rightarrow>
      (case np_add (np_square dx) (np_square dy) of Inl e \<Rightarrow> Inl e | Inr xy \<Rightarrow>
      (case np_add xy (np_square dz) of Inl e \<Rightarrow> Inl e | Inr xyz \<Rightarrow>
         Inr \<lparr>n_nodes = nn, disp_x = dx, disp_y = dy, disp_z = dz,
              force_x = fx, force_y = fy, disp_magnitude = map np_sqrt xyz\<rparr>)))))"

section \<open>The technical report (visualize\_results.py, generate\_report)\<close>

text \<open>The dictionary \<open>data\<close>: each of the four keys is present or not.\<close>

record loaded_data =
  data_stiffness :: "real list list option"
  data_mass :: "real list list option"
  data_force :: "real list option"
  data_displacement :: "real list option"

definition ncols :: "'a list list \<Rightarrow> nat" where
  "ncols matrix = (case matrix of [] \<Rightarrow> 0 | row # _ \<Rightarrow> length row)"

definition np_diag :: "real list list \<Rightarrow> real list" where
  "np_diag matrix = map (\<lambda>i. matrix ! i ! i) [0..<min (length matrix) (ncols matrix)]"

text \<open>\<open>np.max\<close> and \<open>np.min\<close> raise on an empty array.\<close>

definition np_max :: "real list \<Rightarrow> py_error + real" where
  "np_max xs = (case xs of [] \<Rightarrow> Inl ValueError | x # rest \<Rightarrow> Inr (fold max rest x))"

definition np_min :: "real list \<Rightarrow> py_error + real" where
  "np_min xs = (case xs of [] \<Rightarrow> Inl ValueError | x # rest \<Rightarrow> Inr (fold min rest x))"

definition inner :: "real list \<Rightarrow> real list \<Rightarrow> real" where
  "inner xs ys = sum_list (map2 (*) xs ys)"

text \<open>\<open>np.dot\<close> of a matrix and a vector, and of two vectors: the shapes must agree.\<close>

definition np_dot_mv :: "real list list \<Rightarrow> real list \<Rightarrow> py_error + real list" where
  "np_dot_mv matrix v =
     (if ncols matrix = length v then Inr (map (\<lambda>row. inner row v) matrix) else Inl ValueError)"

definition np_dot_vv :: "real list \<Rightarrow> real list \<Rightarrow> py_error + real" where
  "np_dot_vv u v = (if length u = length v then Inr (inner u v) else Inl ValueError)"

datatype limit_flag = Exceeds_limit | Within_limits

text \<open>
  The report keeps the three values of the structural-response section: the maximum
  displacement in millimetres, the strain energy and the limit flag. Each is absent when
  its line is not printed. The lines on the stiffness and mass matrices are kept by what
  they can raise only.
\<close>

record report =
  max_displacement_mm :: "real option"
  strain_energy :: "real option"
  limit :: "limit_flag option"

text \<open>Lines 288 to 294: the smallest diagonal entry of an empty diagonal raises.\<close>

definition stiffness_lines :: "loaded_data \<Rightarrow> py_error + unit" where
  "stiffness_lines data =
     (case data_stiffness data of
        None \<Rightarrow> Inr ()
      | Some K \<Rightarrow> (case np_min (np_diag K) of Inl e \<Rightarrow> Inl e | Inr _ \<Rightarrow> Inr ()))"

text \<open>Lines 323 to 326: computed whenever the key \<open>stiffness\<close> is present.\<close>

definition energy_lines :: "loaded_data \<Rightarrow> real list \<Rightarrow> py_error + real option" where
  "energy_lines data U =
     (case data_stiffness data of
        None \<Rightarrow> Inr None
      | Some K \<Rightarrow>
          (case np_dot_mv K U of
             Inl e \<Rightarrow> Inl e
           | Inr KU \<Rightarrow>
               (case np_dot_vv U KU of
                  Inl e \<Rightarrow> Inl e
                | Inr uKu \<Rightarrow> Inr (Some (0.5 * uKu)))))"

definition generate_report :: "loaded_data \<Rightarrow> py_error + report" where
  "generate_report data =
     (case stiffness_lines data of
        Inl e \<Rightarrow> Inl e
      | Inr _ \<Rightarrow>
          (case (data_force data, data_displacement data) of
             (Some F, Some U) \<Rightarrow>
               (case np_max (map abs U) of
                  Inl e \<Rightarrow> Inl e
                | Inr max_abs \<Rightarrow>
                    (case energy_lines data U of
                       Inl e \<Rightarrow> Inl e
                     | Inr energy \<Rightarrow>
                         (let max_disp_mm = max_abs * 1000 in
                          Inr \<lparr>max_displacement_mm = Some (max_abs * 1000),
                               strain_energy = energy,
                               limit = Some (if max_disp_mm > 10 then Exceeds_limit
                                             else Within_limits)\<rparr>)))
           | _ \<Rightarrow> Inr \<lparr>max_displacement_mm = None, strain_energy = None, limit = None\<rparr>))"

section \<open>Block-wise synthesis (create\_test\_hdf5.py)\<close>

definition block_size :: nat where
  "block_size = 1000"

text \<open>
  \<open>range(i, size, block_size)\<close>, the first rows or columns of the blocks. The
  parameter \<open>size\<close> of the source is written \<open>sz\<close>.
\<close>

function block_starts :: "nat \<Rightarrow> nat \<Rightarrow> nat list" where
  "block_starts i sz = (if i < sz then i # block_starts (i + block_size) sz else [])"
  by pat_completeness auto
termination
  by (relation "measure (\<lambda>(i, sz). sz - i)") (auto simp: block_size_def)

declare block_starts.simps [simp del]

definition np_zeros :: "nat \<Rightarrow> nat \<Rightarrow> real list list" where
  "np_zeros h w = replicate h (replicate w 0)"

text \<open>\<open>block[bi, bj] = v\<close>.\<close>

definition set_entry :: "real list list \<Rightarrow> nat \<Rightarrow> nat \<Rightarrow> real \<Rightarrow> real list list" where
  "set_entry block bi bj v = block[bi := (block ! bi)[bj := v]]"

text \<open>
  \<open>np.fill_diagonal(block[:, off:], vals)\<close> on a block whose view is square: row
  \<open>k\<close> gets \<open>vals[k]\<close> in column \<open>off + k\<close>.
\<close>

definition fill_diagonal :: "real list list \<Rightarrow> nat \<Rightarrow> real list \<Rightarrow> real list list" where
  "fill_diagonal block off vals =
     map (\<lambda>(k, row). row[off + k := vals ! k]) (enumerate 0 block)"

definition diagonal_value :: "nat \<Rightarrow> real" where
  "diagonal_value k = (7 * 10 ^ 10) * (1.0 + 0.1 * sin (real k / 1000.0))"

definition band_value :: "nat \<Rightarrow> real" where
  "band_value distance = - (7 * 10 ^ 10) * exp (- real distance / 10.0) * 0.3"

definition abs_diff :: "nat \<Rightarrow> nat \<Rightarrow> nat" where
  "abs_diff a b = nat \<bar>int a - int b\<bar>"

text \<open>Lines 51 to 55: the two nested loops over the entries of a near-diagonal block.\<close>

definition band_fill :: "nat \<Rightarrow> nat \<Rightarrow> nat \<Rightarrow> nat \<Rightarrow> real list list \<Rightarrow> real list list" where
  "band_fill i j h w block =
     fold (\<lambda>bi blk.
             fold (\<lambda>bj blk'.
                     if abs_diff (i + bi) (j + bj) \<le> 50
                     then (let distance = abs_diff (i + bi) (j + bj)
                           in set_entry blk' bi bj (band_value distance))
                     else blk')
                  [0..<w] blk)
          [0..<h] block"

text \<open>Lines 43 to 55: the block of the stiffness matrix at rows from \<open>i\<close>, columns from \<open>j\<close>.\<close>

definition stiffness_block :: "nat \<Rightarrow> nat \<Rightarrow> nat \<Rightarrow> real list list" where
  "stiffness_block sz i j =
     (let end_i = min (i + block_size) sz;
          end_j = min (j + block_size) sz;
          block = np_zeros (end_i - i) (end_j - j)
      in
      if abs_diff i j < block_size * 2 then
        (if i = j then fill_diagonal block 0 (map diagonal_value [i..<end_i])
         else if abs_diff i j \<le> block_size then band_fill i j (end_i - i) (end_j - j) block
         else block)
      else block)"

text \<open>
  The dataset on disk, as a store from row and column to value, and the assignment
  \<open>dataset[i:end_i, j:end_j] = block\<close>. A new dataset holds zeros.
\<close>

type_synonym dataset2 = "nat \<Rightarrow> nat \<Rightarrow> real"

definition new_dataset :: dataset2 where
  "new_dataset = (\<lambda>r c. 0)"

definition write_block ::
  "dataset2 \<Rightarrow> nat \<Rightarrow> nat \<Rightarrow> nat \<Rightarrow> nat \<Rightarrow> real list list \<Rightarrow> dataset2" where
  "write_block ds i end_i j end_j block =
     (\<lambda>r c. if i \<le> r \<and> r < end_i \<and> j \<le> c \<and> c < end_j then block ! (r - i) ! (c - j)
            else ds r c)"

text \<open>Lines 36 to 57: the stiffness dataset after the two loops over the blocks.\<close>

definition create_stiffness :: "nat \<Rightarrow> dataset2" where
  "create_stiffness sz =
     fold (\<lambda>i ds.
             fold (\<lambda>j ds'.
                     write_block ds' i (min (i + block_size) sz) j (min (j + block_size) sz)
                       (stiffness_block sz i j))
                  (block_starts 0 sz) ds)
          (block_starts 0 sz) new_dataset"

text \<open>Lines 73 and 74: the block of the mass matrix for the rows from \<open>i\<close>.\<close>

definition mass_block :: "nat \<Rightarrow> nat \<Rightarrow> real list list" where
  "mass_block sz i =
     (let end_i = min (i + block_size) sz;
          block = np_zeros (end_i - i) sz
      in fill_diagonal block i (replicate (end_i - i) 0.054))"

text \<open>Lines 70 to 75: the mass dataset after the loop over the row blocks.\<close>

definition create_mass :: "nat \<Rightarrow> dataset2" where
  "create_mass sz =
     fold (\<lambda>i ds. write_block ds i (min (i + block_size) sz) 0 sz (mass_block sz i))
          (block_starts 0 sz) new_dataset"

text \<open>The number of float64 values a block holds.\<close>

definition block_elements :: "real list list \<Rightarrow> nat" where
  "block_elements block = sum_list (map length block)"

section \<open>The small test file (create\_test\_hdf5.py, create\_small\_test\_hdf5)\<close>

text \<open>\<open>K.T\<close> for a matrix given by its rows.\<close>

definition np_transpose :: "real list list \<Rightarrow> real list list" where
  "np_transpose matrix = map (\<lambda>c. map (\<lambda>row. row ! c) matrix) [0..<ncols matrix]"

text \<open>
  Lines 114 to 116. The argument is the matrix \<open>np.random.rand(size, size)\<close> returns, whose
  entries lie between zero and one.
\<close>

definition create_small_stiffness :: "real list list \<Rightarrow> real list list" where
  "create_small_stiffness rand =
     (let K = map (map (\<lambda>x. x * 10 ^ 10)) rand;
          K' = map2 (map2 (\<lambda>a b. (a + b) / 2)) K (np_transpose K)
      in fill_diagonal K' 0 (map (\<lambda>d. d + 7 * 10 ^ 10) (np_diag K')))"

section \<open>Properties of the strided slice and of the loader\<close>

lemma ceil_div_step:
  fixes n s :: nat
  assumes s: "0 < s"
  shows "(n + s + s - 1) div s = Suc ((n + s - 1) div s)"
proof -
  have e: "n + s + s - 1 = (n + s - 1) + s" using s by arith
  have "((n + s - 1) + s) div s = Suc ((n + s - 1) div s)"
    using s by (subst div_add_self2) auto
  then show ?thesis by (simp only: e)
qed

lemma length_strided:
  "0 < step \<Longrightarrow> length (strided step xs) = (length xs + step - 1) div step"
proof (induction step xs rule: strided.induct)
  case (1 step)
  then show ?case by simp
next
  case (2 step x xs)
  show ?case
  proof (cases "step - 1 \<le> length xs")
    case True
    have "length xs - (step - 1) + step + step - 1 = length xs + step"
      using True 2(2) by simp
    then have "Suc ((length xs - (step - 1) + step - 1) div step) = (length xs + step) div step"
      using ceil_div_step [OF 2(2), of "length xs - (step - 1)"] by simp
    then show ?thesis using 2 by simp
  next
    case False
    then have "length xs + step < 2 * step" "step \<le> length xs + step" by simp_all
    then have "(length xs + step) div step = 1"
      using 2(2) by (simp add: div_nat_eqI)
    then show ?thesis using 2 False by simp
  qed
qed

lemma nth_strided:
  "0 < step \<Longrightarrow> k < length (strided step xs) \<Longrightarrow> strided step xs ! k = xs ! (k * step)"
proof (induction step xs arbitrary: k rule: strided.induct)
  case (1 step)
  then show ?case by simp
next
  case (2 step x xs)
  show ?case
  proof (cases k)
    case 0
    then show ?thesis by simp
  next
    case (Suc k')
    with 2(3) have k': "k' < length (strided step (drop (step - 1) xs))" by simp
    then have ne: "drop (step - 1) xs \<noteq> []" by auto
    then have le: "step - 1 \<le> length xs" by simp
    have "strided step (drop (step - 1) xs) ! k' = drop (step - 1) xs ! (k' * step)"
      using 2(1) [OF 2(2) k'] .
    also have "\<dots> = xs ! (step - 1 + k' * step)"
      using le by simp
    also have "\<dots> = (x # xs) ! (Suc k' * step)"
    proof -
      have "Suc k' * step = Suc (step - 1 + k' * step)" using 2(2) by simp
      then show ?thesis by simp
    qed
    finally show ?thesis using Suc by simp
  qed
qed

lemma strided_index_valid:
  fixes n :: nat
  assumes s: "0 < step" and k: "k < (n + step - 1) div step"
  shows "k * step < n"
proof -
  from k have "Suc k \<le> (n + step - 1) div step" by simp
  then have "Suc k * step \<le> n + step - 1"
    using s by (simp add: less_eq_div_iff_mult_less_eq)
  then show ?thesis using s by simp
qed

lemma strided_one: "strided (Suc 0) xs = xs"
  by (induction xs) simp_all

lemma sum_le_prod_nat:
  fixes a b :: nat
  assumes "1 \<le> a" and "1 \<le> b"
  shows "a + b \<le> a * b + 1"
proof -
  obtain a' b' where "a = Suc a'" "b = Suc b'"
    using assms by (metis Suc_le_D One_nat_def)
  then show ?thesis by simp
qed

lemma subsample_count_bound:
  fixes n m :: nat
  assumes m: "1 \<le> m" and n: "m < n"
  shows "(n + n div m - 1) div (n div m) < 2 * m"
proof -
  let ?q = "n div m"
  have q: "1 \<le> ?q" using m n by (simp add: Suc_le_eq div_greater_zero_iff)
  have "n mod m < m" using m by simp
  moreover have "n = m * ?q + n mod m" by simp
  ultimately have "n < m * ?q + m" by linarith
  moreover have "m + ?q \<le> m * ?q + 1" using sum_le_prod_nat [OF m q] .
  moreover have "2 * m * ?q = m * ?q + m * ?q" by simp
  ultimately have "n + ?q - 1 < 2 * m * ?q" using q by linarith
  then show ?thesis using q by (simp add: div_less_iff_less_mult Suc_le_eq)
qed

lemma step_nat:
  assumes "1 \<le> max_size" and "max_size < int n"
  shows "int n div max_size = int (n div nat max_size)" and "1 \<le> n div nat max_size"
proof -
  have m: "max_size = int (nat max_size)" using assms by simp
  show "int n div max_size = int (n div nat max_size)"
    by (subst m) (simp only: zdiv_int)
  have "nat max_size \<le> n" "0 < nat max_size" using assms by simp_all
  then show "1 \<le> n div nat max_size"
    by (simp add: Suc_le_eq div_greater_zero_iff)
qed

lemma load_vector_big:
  assumes "1 \<le> max_size" and "max_size < int (length xs)"
    and "hdf5_file dataset_path = Some (Dataset (Vector xs))"
  shows "load_dataset_with_subsampling hdf5_file dataset_path max_size True =
           Inr (Some (Vector (strided (length xs div nat max_size) xs)))"
  using assms step_nat [OF assms(1,2)]
  by (simp add: load_dataset_with_subsampling_def py_floordiv_def slice_first_axis_def)

lemma load_matrix_big:
  assumes "1 \<le> max_size" and "max_size < int (length rows)"
    and "hdf5_file dataset_path = Some (Dataset (Matrix rows))"
  shows "load_dataset_with_subsampling hdf5_file dataset_path max_size False =
           Inr (Some (Matrix (map (strided (length rows div nat max_size))
                                  (strided (length rows div nat max_size) rows))))"
  using assms step_nat [OF assms(1,2)]
  by (simp add: load_dataset_with_subsampling_def py_floordiv_def slice_both_axes_def)

lemma ceil_div_nat:
  fixes n s :: nat
  assumes s: "0 < s"
  shows "(n + s - 1) div s = nat \<lceil>real n / real s\<rceil>"
proof -
  define c where "c = (n + s - 1) div s"
  have "c * s \<le> n + s - 1" by (simp add: c_def)
  then have "c * s + 1 \<le> n + s" using s by simp
  then have "real (c * s + 1) \<le> real (n + s)" by (simp only: of_nat_le_iff)
  then have lo: "(real c - 1) * real s < real n" by (simp add: algebra_simps)
  have "n + s - 1 < s + c * s"
    unfolding c_def using s by (rule dividend_less_div_times)
  then have "n \<le> c * s" using s by simp
  then have "real n \<le> real (c * s)" by (simp only: of_nat_le_iff)
  then have hi: "real n \<le> real c * real s" by simp
  have rs: "0 < real s" using s by simp
  have "\<lceil>real n / real s\<rceil> = int c"
  proof (rule ceiling_unique)
    show "of_int (int c) - 1 < real n / real s"
      using lo rs by (simp add: pos_less_divide_eq)
    show "real n / real s \<le> of_int (int c)"
      using hi rs by (simp add: pos_divide_le_eq)
  qed
  then show ?thesis by (simp add: c_def)
qed

section \<open>The loader: claims\<close>

text \<open>
  Claim C2. When the leading dimension of a dataset is at most \<open>max_size\<close>, the loader
  returns the whole array unchanged, whatever the flag \<open>is_vector\<close>.
\<close>

theorem load_small_identity:
  assumes "hdf5_file dataset_path = Some (Dataset dataset)"
    and "int (leading_dim dataset) \<le> max_size"
  shows "load_dataset_with_subsampling hdf5_file dataset_path max_size is_vector =
           Inr (Some dataset)"
  using assms by (simp add: load_dataset_with_subsampling_def)

theorem load_small_identity_witness:
  "load_dataset_with_subsampling
     [''/vectors/force'' \<mapsto> Dataset (Vector [1, 2, 3 :: int])] ''/vectors/force'' 5 True =
     Inr (Some (Vector [1, 2, 3]))
   \<and> load_dataset_with_subsampling
     [''/matrices/mass'' \<mapsto> Dataset (Matrix [[1, 0], [0, 1 :: int]])] ''/matrices/mass'' 2 False =
     Inr (Some (Matrix [[1, 0], [0, 1]]))"
  using load_small_identity
          [of "[''/vectors/force'' \<mapsto> Dataset (Vector [1, 2, 3 :: int])]" "''/vectors/force''"
              "Vector [1, 2, 3]" 5 True]
        load_small_identity
          [of "[''/matrices/mass'' \<mapsto> Dataset (Matrix [[1, 0], [0, 1 :: int]])]" "''/matrices/mass''"
              "Matrix [[1, 0], [0, 1]]" 2 False]
  by simp

text \<open>
  Claim C1. When the leading dimension \<open>n\<close> of a dataset exceeds \<open>max_size\<close> and
  \<open>max_size\<close> is at least one, the loader uses the stride \<open>n // max_size\<close>, which is at
  least one. A one-dimensional dataset, which the loader reads with \<open>is_vector\<close> set, comes
  back as the elements at the indices \<open>0, stride, 2 * stride, \<dots>\<close>: entry \<open>k\<close> of the
  result is entry \<open>k * stride\<close> of the dataset, for every \<open>k\<close> of the result. A
  two-dimensional dataset, read with \<open>is_vector\<close> unset, has the stride applied to both
  axes: entry \<open>(r, c)\<close> of the result is entry \<open>(r * stride, c * stride)\<close> of the dataset.
\<close>

theorem load_subsampled_stride:
  assumes "1 \<le> max_size" and "max_size < int (leading_dim dataset)"
    and "hdf5_file dataset_path = Some (Dataset dataset)"
  shows "\<exists>step. int step = int (leading_dim dataset) div max_size \<and> 1 \<le> step \<and>
           (case dataset of
              Vector xs \<Rightarrow>
                (\<exists>ys. load_dataset_with_subsampling hdf5_file dataset_path max_size True =
                        Inr (Some (Vector ys)) \<and>
                      length ys = (length xs + step - 1) div step \<and>
                      (\<forall>k < length ys. k * step < length xs \<and> ys ! k = xs ! (k * step)))
            | Matrix rows \<Rightarrow>
                (\<exists>sub. load_dataset_with_subsampling hdf5_file dataset_path max_size False =
                        Inr (Some (Matrix sub)) \<and>
                      length sub = (length rows + step - 1) div step \<and>
                      (\<forall>r < length sub. r * step < length rows \<and>
                         length (sub ! r) = (length (rows ! (r * step)) + step - 1) div step \<and>
                         (\<forall>c < length (sub ! r). c * step < length (rows ! (r * step)) \<and>
                            sub ! r ! c = rows ! (r * step) ! (c * step)))))"
proof -
  let ?n = "leading_dim dataset"
  let ?s = "?n div nat max_size"
  have s: "int ?s = int ?n div max_size" "1 \<le> ?s"
    using step_nat [OF assms(1,2)] by simp_all
  then have s0: "0 < ?s" by simp
  have body: "(case dataset of
              Vector xs \<Rightarrow>
                (\<exists>ys. load_dataset_with_subsampling hdf5_file dataset_path max_size True =
                        Inr (Some (Vector ys)) \<and>
                      length ys = (length xs + ?s - 1) div ?s \<and>
                      (\<forall>k < length ys. k * ?s < length xs \<and> ys ! k = xs ! (k * ?s)))
            | Matrix rows \<Rightarrow>
                (\<exists>sub. load_dataset_with_subsampling hdf5_file dataset_path max_size False =
                        Inr (Some (Matrix sub)) \<and>
                      length sub = (length rows + ?s - 1) div ?s \<and>
                      (\<forall>r < length sub. r * ?s < length rows \<and>
                         length (sub ! r) = (length (rows ! (r * ?s)) + ?s - 1) div ?s \<and>
                         (\<forall>c < length (sub ! r). c * ?s < length (rows ! (r * ?s)) \<and>
                            sub ! r ! c = rows ! (r * ?s) ! (c * ?s)))))"
  proof (cases dataset)
    case (Vector xs)
    then have n: "?n = length xs" by simp
    have ld: "load_dataset_with_subsampling hdf5_file dataset_path max_size True =
                Inr (Some (Vector (strided ?s xs)))"
      using load_vector_big [of max_size xs hdf5_file dataset_path] assms Vector by simp
    have len: "length (strided ?s xs) = (length xs + ?s - 1) div ?s"
      using length_strided [OF s0, of xs] by simp
    have "k * ?s < length xs \<and> strided ?s xs ! k = xs ! (k * ?s)"
      if "k < length (strided ?s xs)" for k
      using strided_index_valid [OF s0, of k "length xs"] nth_strided [OF s0 that] that len
      by simp
    with ld len have "\<exists>ys. load_dataset_with_subsampling hdf5_file dataset_path max_size True =
                        Inr (Some (Vector ys)) \<and>
                      length ys = (length xs + ?s - 1) div ?s \<and>
                      (\<forall>k < length ys. k * ?s < length xs \<and> ys ! k = xs ! (k * ?s))"
      by blast
    then show ?thesis by (simp only: Vector ndarray.case)
  next
    case (Matrix rows)
    let ?sub = "map (strided ?s) (strided ?s rows)"
    have ld: "load_dataset_with_subsampling hdf5_file dataset_path max_size False =
                Inr (Some (Matrix ?sub))"
      using load_matrix_big [of max_size rows hdf5_file dataset_path] assms Matrix by simp
    have len: "length ?sub = (length rows + ?s - 1) div ?s"
      using length_strided [OF s0, of rows] by simp
    have row: "r * ?s < length rows \<and>
               length (?sub ! r) = (length (rows ! (r * ?s)) + ?s - 1) div ?s \<and>
               (\<forall>c < length (?sub ! r). c * ?s < length (rows ! (r * ?s)) \<and>
                  ?sub ! r ! c = rows ! (r * ?s) ! (c * ?s))"
      if r: "r < length ?sub" for r
    proof -
      have r': "r < length (strided ?s rows)" using r by simp
      have v: "r * ?s < length rows"
        using strided_index_valid [OF s0, of r "length rows"] r len by simp
      have e: "?sub ! r = strided ?s (rows ! (r * ?s))"
        using r' nth_strided [OF s0 r'] by simp
      have l: "length (?sub ! r) = (length (rows ! (r * ?s)) + ?s - 1) div ?s"
        by (simp only: e length_strided [OF s0])
      have "c * ?s < length (rows ! (r * ?s)) \<and> ?sub ! r ! c = rows ! (r * ?s) ! (c * ?s)"
        if c: "c < length (?sub ! r)" for c
      proof -
        have c': "c < length (strided ?s (rows ! (r * ?s)))" using c by (simp only: e)
        have "c * ?s < length (rows ! (r * ?s))"
          using strided_index_valid [OF s0, of c "length (rows ! (r * ?s))"] c l by simp
        moreover have "?sub ! r ! c = rows ! (r * ?s) ! (c * ?s)"
          using nth_strided [OF s0 c'] by (simp only: e)
        ultimately show ?thesis by simp
      qed
      with v l show ?thesis by blast
    qed
    have "\<exists>sub. load_dataset_with_subsampling hdf5_file dataset_path max_size False =
                        Inr (Some (Matrix sub)) \<and>
                      length sub = (length rows + ?s - 1) div ?s \<and>
                      (\<forall>r < length sub. r * ?s < length rows \<and>
                         length (sub ! r) = (length (rows ! (r * ?s)) + ?s - 1) div ?s \<and>
                         (\<forall>c < length (sub ! r). c * ?s < length (rows ! (r * ?s)) \<and>
                            sub ! r ! c = rows ! (r * ?s) ! (c * ?s)))"
      using ld len row by blast
    then show ?thesis by (simp only: Matrix ndarray.case)
  qed
  show ?thesis
    using s body by blast
qed

theorem load_subsampled_stride_witness:
  "(\<exists>ys. load_dataset_with_subsampling
            [''/vectors/force'' \<mapsto> Dataset (Vector [10, 11, 12, 13, 14 :: int])]
            ''/vectors/force'' 2 True = Inr (Some (Vector ys)) \<and>
          length ys = 3 \<and> ys ! 0 = 10 \<and> ys ! 1 = 12 \<and> ys ! 2 = 14)
   \<and> (\<exists>sub. load_dataset_with_subsampling
            [''/matrices/mass'' \<mapsto>
               Dataset (Matrix [[1, 2, 3, 4], [5, 6, 7, 8], [9, 10, 11, 12], [13, 14, 15, 16 :: int]])]
            ''/matrices/mass'' 2 False = Inr (Some (Matrix sub)) \<and>
          length sub = 2 \<and> length (sub ! 1) = 2 \<and> sub ! 1 ! 1 = 11)"
proof
  let ?f = "[''/vectors/force'' \<mapsto> Dataset (Vector [10, 11, 12, 13, 14 :: int])]"
  obtain step ys where st: "int step = 5 div 2" 
    and ld: "load_dataset_with_subsampling ?f ''/vectors/force'' 2 True = Inr (Some (Vector ys))"
    and len: "length ys = (5 + step - 1) div step"
    and el: "\<forall>k < length ys. k * step < 5 \<and> ys ! k = [10, 11, 12, 13, 14 :: int] ! (k * step)"
    using load_subsampled_stride [of 2 "Vector [10, 11, 12, 13, 14 :: int]" ?f "''/vectors/force''"]
    by auto
  from st have step: "step = 2" by simp
  with len have l3: "length ys = 3" by simp
  with el step have "ys ! 0 = 10 \<and> ys ! 1 = 12 \<and> ys ! 2 = 14" by simp
  with ld l3 show "\<exists>ys. load_dataset_with_subsampling ?f ''/vectors/force'' 2 True =
           Inr (Some (Vector ys)) \<and> length ys = 3 \<and> ys ! 0 = 10 \<and> ys ! 1 = 12 \<and> ys ! 2 = 14"
    by blast
next
  let ?m = "[[1, 2, 3, 4], [5, 6, 7, 8], [9, 10, 11, 12], [13, 14, 15, 16 :: int]]"
  let ?f = "[''/matrices/mass'' \<mapsto> Dataset (Matrix ?m)]"
  obtain step sub where st: "int step = 4 div 2"
    and ld: "load_dataset_with_subsampling ?f ''/matrices/mass'' 2 False = Inr (Some (Matrix sub))"
    and len: "length sub = (4 + step - 1) div step"
    and el: "\<forall>r < length sub. r * step < 4 \<and>
                length (sub ! r) = (length (?m ! (r * step)) + step - 1) div step \<and>
                (\<forall>c < length (sub ! r). c * step < length (?m ! (r * step)) \<and>
                            sub ! r ! c = ?m ! (r * step) ! (c * step))"
    using load_subsampled_stride [of 2 "Matrix ?m" ?f "''/matrices/mass''"]
    by auto
  from st have step: "step = 2" by simp
  with len have l2: "length sub = 2" by simp
  have row: "length (sub ! 1) = (length (?m ! (1 * step)) + step - 1) div step \<and>
                (\<forall>c < length (sub ! 1). c * step < length (?m ! (1 * step)) \<and>
                            sub ! 1 ! c = ?m ! (1 * step) ! (c * step))"
    using el [rule_format, of 1] l2 by simp
  then have r2: "length (sub ! 1) = 2" using step by simp
  with row step have "sub ! 1 ! 1 = 11" by simp
  with ld l2 r2 show "\<exists>sub. load_dataset_with_subsampling ?f ''/matrices/mass'' 2 False =
      Inr (Some (Matrix sub)) \<and> length sub = 2 \<and> length (sub ! 1) = 2 \<and> sub ! 1 ! 1 = 11"
    by blast
qed

text \<open>
  Claim C10. For a one-dimensional dataset of length \<open>n > max_size \<ge> 1\<close> the loader
  returns exactly \<open>ceil (n / (n // max_size))\<close> elements. That number is below
  \<open>2 * max_size\<close>, and it can exceed \<open>max_size\<close>: whenever
  \<open>max_size < n < 2 * max_size\<close> the stride is one and all \<open>n\<close> elements come back.
\<close>

theorem subsample_size_not_bounded_by_max_size:
  assumes "1 \<le> max_size" and "max_size < int (length xs)"
    and "hdf5_file dataset_path = Some (Dataset (Vector xs))"
  shows "\<exists>ys step. load_dataset_with_subsampling hdf5_file dataset_path max_size True =
                    Inr (Some (Vector ys)) \<and>
                  int step = int (length xs) div max_size \<and>
                  length ys = nat \<lceil>real (length xs) / real step\<rceil> \<and>
                  int (length ys) < 2 * max_size \<and>
                  (int (length xs) < 2 * max_size \<longrightarrow>
                     step = 1 \<and> ys = xs \<and> max_size < int (length ys))"
proof -
  let ?n = "length xs"
  let ?m = "nat max_size"
  let ?s = "?n div ?m"
  have s: "int ?s = int ?n div max_size" "1 \<le> ?s"
    using step_nat [OF assms(1,2)] by simp_all
  then have s0: "0 < ?s" by simp
  have m: "1 \<le> ?m" "?m < ?n" using assms by simp_all
  have ld: "load_dataset_with_subsampling hdf5_file dataset_path max_size True =
              Inr (Some (Vector (strided ?s xs)))"
    using load_vector_big [of max_size xs hdf5_file dataset_path] assms by simp
  have len: "length (strided ?s xs) = (?n + ?s - 1) div ?s"
    using length_strided [OF s0] .
  have ceil: "length (strided ?s xs) = nat \<lceil>real ?n / real ?s\<rceil>"
    using len ceil_div_nat [OF s0, of ?n] by simp
  have "length (strided ?s xs) < 2 * ?m"
    using subsample_count_bound [OF m] len by simp
  then have bound: "int (length (strided ?s xs)) < 2 * max_size"
    using assms(1) by linarith
  have small: "?s = 1 \<and> strided ?s xs = xs \<and> max_size < int (length (strided ?s xs))"
    if "int ?n < 2 * max_size"
  proof -
    have "?n < 2 * ?m" using that assms(1) by linarith
    then have "?n < ?m * 2" by simp
    then have "?s < 2" using m by (simp add: div_less_iff_less_mult)
    with s(2) have one: "?s = 1" by simp
    then have "strided ?s xs = xs" by (simp add: strided_one)
    with one assms(2) show ?thesis by simp
  qed
  show ?thesis
    using ld s(1) ceil bound small by blast
qed

theorem subsample_size_not_bounded_by_max_size_witness:
  "\<exists>ys. load_dataset_with_subsampling
           [''/vectors/force'' \<mapsto> Dataset (Vector [10, 11, 12 :: int])]
           ''/vectors/force'' 2 True = Inr (Some (Vector ys)) \<and>
         ys = [10, 11, 12] \<and> (2 :: int) < int (length ys) \<and> int (length ys) < 2 * 2"
proof -
  let ?f = "[''/vectors/force'' \<mapsto> Dataset (Vector [10, 11, 12 :: int])]"
  obtain ys and step :: nat where
    ld: "load_dataset_with_subsampling ?f ''/vectors/force'' 2 True = Inr (Some (Vector ys))"
    and b: "int (length ys) < 2 * 2"
    and sm: "int (length [10, 11, 12 :: int]) < 2 * 2 \<longrightarrow>
               step = 1 \<and> ys = [10, 11, 12] \<and> 2 < int (length ys)"
    using subsample_size_not_bounded_by_max_size
            [of 2 "[10, 11, 12 :: int]" ?f "''/vectors/force''"]
    by auto
  from sm have "ys = [10, 11, 12] \<and> 2 < int (length ys)" by simp
  with ld b show ?thesis by blast
qed

section \<open>Modal analysis: claims\<close>

lemma square_leading_block:
  assumes "square_matrix n A" and "k \<le> n"
  shows "square_matrix k (leading_block k A)"
  using assms
  by (auto simp: square_matrix_def leading_block_def list_all_iff dest: in_set_takeD)

lemma nth_leading_block:
  assumes "r < k" and "c < k" and "r < length A" 
  shows "leading_block k A ! r ! c = A ! r ! c"
  using assms by (simp add: leading_block_def)

lemma square_row_lengths:
  assumes "square_matrix n A"
  shows "map length A = replicate n n"
  using assms
  by (auto simp: square_matrix_def list_all_iff list_eq_iff_nth_eq)

text \<open>
  Claim C3 as stated puts the threshold at 500. The code restricts only above 1000: two
  square matrices of dimension 501 reach the eigen-solver whole.
\<close>

theorem modal_threshold_counterexample:
  "square_matrix 501 (replicate 501 (replicate 501 (0 :: real))) \<and>
   (500 :: nat) < 501 \<and>
   modal_matrices (replicate 501 (replicate 501 (0 :: real))) (replicate 501 (replicate 501 0)) =
     (replicate 501 (replicate 501 0), replicate 501 (replicate 501 0)) \<and>
   length (fst (modal_matrices (replicate 501 (replicate 501 (0 :: real)))
                               (replicate 501 (replicate 501 0)))) \<noteq> 500"
  by (simp add: modal_matrices_def square_matrix_def list_all_iff)

text \<open>
  Claim C3, amended. For square matrices \<open>K\<close> and \<open>M\<close> of dimension \<open>n\<close>, the
  modal analysis restricts both to their leading principal submatrix of size 500 whenever
  \<open>n\<close> exceeds 1000, and leaves both whole otherwise; in both cases the two matrices handed
  to the eigen-solver have equal shape.
\<close>

theorem modal_matrices_restriction:
  assumes "square_matrix n K" and "square_matrix n M"
  shows "(1000 < n \<longrightarrow>
            modal_matrices K M = (leading_block 500 K, leading_block 500 M) \<and>
            square_matrix 500 (leading_block 500 K) \<and>
            square_matrix 500 (leading_block 500 M) \<and>
            (\<forall>r < 500. \<forall>c < 500. leading_block 500 K ! r ! c = K ! r ! c \<and>
                                   leading_block 500 M ! r ! c = M ! r ! c)) \<and>
         (n \<le> 1000 \<longrightarrow> modal_matrices K M = (K, M)) \<and>
         map length (fst (modal_matrices K M)) = map length (snd (modal_matrices K M))"
proof -
  have n: "length K = n" "length M = n"
    using assms by (simp_all add: square_matrix_def)
  have big: "modal_matrices K M = (leading_block 500 K, leading_block 500 M) \<and>
            square_matrix 500 (leading_block 500 K) \<and>
            square_matrix 500 (leading_block 500 M) \<and>
            (\<forall>r < 500. \<forall>c < 500. leading_block 500 K ! r ! c = K ! r ! c \<and>
                                   leading_block 500 M ! r ! c = M ! r ! c)"
    if "1000 < n"
  proof -
    have "modal_matrices K M = (leading_block 500 K, leading_block 500 M)"
      using that n by (simp add: modal_matrices_def)
    moreover have "square_matrix 500 (leading_block 500 K)" "square_matrix 500 (leading_block 500 M)"
      using square_leading_block [OF assms(1), of 500] square_leading_block [OF assms(2), of 500] that
      by simp_all
    moreover have "leading_block 500 K ! r ! c = K ! r ! c \<and> leading_block 500 M ! r ! c = M ! r ! c"
      if "r < 500" "c < 500" for r c
      using nth_leading_block [of r 500 c K] nth_leading_block [of r 500 c M] that n \<open>1000 < n\<close>
      by simp
    ultimately show ?thesis by blast
  qed
  have small: "modal_matrices K M = (K, M)" if "n \<le> 1000"
    using that n by (simp add: modal_matrices_def)
  have shape: "map length (fst (modal_matrices K M)) = map length (snd (modal_matrices K M))"
  proof (cases "1000 < n")
    case True
    with big have "map length (fst (modal_matrices K M)) = replicate 500 500"
      "map length (snd (modal_matrices K M)) = replicate 500 500"
      using square_row_lengths [of 500 "leading_block 500 K"]
            square_row_lengths [of 500 "leading_block 500 M"] by simp_all
    then show ?thesis by simp
  next
    case False
    with small have "modal_matrices K M = (K, M)" by simp
    then show ?thesis
      using square_row_lengths [OF assms(1)] square_row_lengths [OF assms(2)] by simp
  qed
  show ?thesis using big small shape by blast
qed

theorem modal_matrices_restriction_witness:
  "modal_matrices (replicate 1001 (replicate 1001 (3 :: real))) (replicate 1001 (replicate 1001 2)) =
     (leading_block 500 (replicate 1001 (replicate 1001 3)),
      leading_block 500 (replicate 1001 (replicate 1001 2))) \<and>
   square_matrix 500 (leading_block 500 (replicate 1001 (replicate 1001 (3 :: real)))) \<and>
   square_matrix 500 (leading_block 500 (replicate 1001 (replicate 1001 (2 :: real)))) \<and>
   modal_matrices [[2, 0], [0, 2 :: real]] [[1, 0], [0, 1]] = ([[2, 0], [0, 2]], [[1, 0], [0, 1]])"
  using modal_matrices_restriction
          [of 1001 "replicate 1001 (replicate 1001 (3 :: real))" "replicate 1001 (replicate 1001 2)"]
        modal_matrices_restriction [of 2 "[[2, 0], [0, 2 :: real]]" "[[1, 0], [0, 1]]"]
  by (simp add: square_matrix_def list_all_iff)






section \<open>The technical report: claims\<close>

lemma np_max_Max:
  assumes "xs \<noteq> []"
  shows "np_max xs = Inr (Max (set xs))"
proof -
  obtain x rest where xs: "xs = x # rest" using assms by (cases xs) auto
  then show ?thesis by (simp only: np_max_def list.case Max.set_eq_fold)
qed

lemma np_max_empty: "np_max [] = Inl ValueError"
  by (simp add: np_max_def)

lemma inner_sum:
  assumes "length xs = n" and "length ys = n"
  shows "inner xs ys = (\<Sum>i<n. xs ! i * ys ! i)"
proof -
  have "inner xs ys = (\<Sum>i = 0..<n. map2 (*) xs ys ! i)"
    using assms by (simp add: inner_def sum_list_sum_nth)
  also have "\<dots> = (\<Sum>i = 0..<n. xs ! i * ys ! i)"
    using assms by (intro sum.cong) simp_all
  finally show ?thesis by (simp add: atLeast0LessThan)
qed

lemma square_ncols:
  assumes "square_matrix n K" and "0 < n"
  shows "ncols K = n"
  using assms by (cases K) (auto simp: square_matrix_def ncols_def)

lemma square_row_length:
  assumes "square_matrix n K" and "i < n"
  shows "length (K ! i) = n"
  using assms by (auto simp: square_matrix_def list_all_iff)

lemma energy_lines_square:
  assumes K: "data_stiffness data = Some K" and sq: "square_matrix (length U) K" and U: "U \<noteq> []"
  shows "energy_lines data U =
           Inr (Some (0.5 * (\<Sum>i<length U. U ! i * (\<Sum>j<length U. K ! i ! j * U ! j))))"
proof -
  let ?n = "length U"
  have n: "0 < ?n" using U by simp
  have lenK: "length K = ?n" using sq by (simp add: square_matrix_def)
  have mv: "np_dot_mv K U = Inr (map (\<lambda>row. inner row U) K)"
    using square_ncols [OF sq n] by (simp add: np_dot_mv_def)
  have vv: "np_dot_vv U (map (\<lambda>row. inner row U) K) = Inr (inner U (map (\<lambda>row. inner row U) K))"
    using lenK by (simp add: np_dot_vv_def)
  have "inner U (map (\<lambda>row. inner row U) K) = (\<Sum>i<?n. U ! i * (map (\<lambda>row. inner row U) K) ! i)"
    using inner_sum [of U ?n "map (\<lambda>row. inner row U) K"] lenK by simp
  also have "\<dots> = (\<Sum>i<?n. U ! i * (\<Sum>j<?n. K ! i ! j * U ! j))"
  proof (intro sum.cong refl)
    fix i assume "i \<in> {..<?n}"
    then have i: "i < ?n" by simp
    have "map (\<lambda>row. inner row U) K ! i = inner (K ! i) U" using i lenK by simp
    also have "\<dots> = (\<Sum>j<?n. K ! i ! j * U ! j)"
      using inner_sum [of "K ! i" ?n U] square_row_length [OF sq i] by simp
    finally show "U ! i * map (\<lambda>row. inner row U) K ! i = U ! i * (\<Sum>j<?n. K ! i ! j * U ! j)"
      by simp
  qed
  finally show ?thesis
    using K mv vv by (simp add: energy_lines_def)
qed

lemma np_diag_square:
  assumes "square_matrix n K" and "0 < n"
  shows "np_diag K \<noteq> []"
  using assms square_ncols [OF assms] by (simp add: np_diag_def square_matrix_def)

lemma np_min_nonempty:
  assumes "xs \<noteq> []"
  shows "\<exists>m. np_min xs = Inr m"
  using assms by (cases xs) (simp_all add: np_min_def)

lemma stiffness_lines_ok:
  assumes "case data_stiffness data of None \<Rightarrow> True | Some K \<Rightarrow> square_matrix n K" and "0 < n"
  shows "stiffness_lines data = Inr ()"
proof (cases "data_stiffness data")
  case None
  then show ?thesis by (simp add: stiffness_lines_def)
next
  case (Some K)
  with assms have "square_matrix n K" by simp
  then obtain m where "np_min (np_diag K) = Inr m"
    using np_min_nonempty [OF np_diag_square] assms(2) by blast
  with Some show ?thesis by (simp add: stiffness_lines_def)
qed

lemma energy_lines_ok:
  assumes "case data_stiffness data of None \<Rightarrow> True | Some K \<Rightarrow> square_matrix (length U) K"
    and "U \<noteq> []"
  shows "\<exists>energy. energy_lines data U = Inr energy"
proof (cases "data_stiffness data")
  case None
  then show ?thesis by (simp add: energy_lines_def)
next
  case (Some K)
  with assms have "square_matrix (length U) K" by simp
  then show ?thesis using energy_lines_square [OF Some _ assms(2)] by simp
qed

lemma generate_report_response:
  assumes F: "data_force data = Some F" and U: "data_displacement data = Some U"
    and rep: "generate_report data = Inr rep"
  shows "U \<noteq> [] \<and> energy_lines data U = Inr (strain_energy rep) \<and>
         max_displacement_mm rep = Some (Max (set (map abs U)) * 1000) \<and>
         limit rep = Some (if Max (set (map abs U)) * 1000 > 10 then Exceeds_limit else Within_limits)"
proof -
  have ne: "U \<noteq> []"
  proof
    assume "U = []"
    then have "\<exists>e. generate_report data = Inl e"
      using F U by (simp add: generate_report_def np_max_empty split: sum.splits)
    with rep show False by auto
  qed
  then have mx: "np_max (map abs U) = Inr (Max (set (map abs U)))"
    using np_max_Max [of "map abs U"] by simp
  show ?thesis
    using rep F U mx ne
    by (auto simp: generate_report_def Let_def split: sum.splits)
qed

lemma generate_report_returns:
  assumes F: "data_force data = Some F" and U: "data_displacement data = Some U"
    and ne: "U \<noteq> []"
    and K: "case data_stiffness data of None \<Rightarrow> True | Some K \<Rightarrow> square_matrix (length U) K"
  shows "\<exists>rep. generate_report data = Inr rep"
proof -
  have "stiffness_lines data = Inr ()"
    using stiffness_lines_ok [OF K] ne by simp
  moreover have "np_max (map abs U) = Inr (Max (set (map abs U)))"
    using np_max_Max [of "map abs U"] ne by simp
  moreover obtain energy where "energy_lines data U = Inr energy"
    using energy_lines_ok [OF K ne] by blast
  ultimately show ?thesis
    using F U by (simp add: generate_report_def Let_def)
qed

lemma energy_lines_value:
  assumes "energy_lines data U = Inr (Some e)"
  shows "\<exists>K. data_stiffness data = Some K \<and> length K = length U \<and> ncols K = length U"
proof (cases "data_stiffness data")
  case None
  with assms show ?thesis by (simp add: energy_lines_def)
next
  case (Some K)
  have nc: "ncols K = length U"
  proof (rule ccontr)
    assume "ncols K \<noteq> length U"
    then have "energy_lines data U = Inl ValueError"
      using Some by (simp add: energy_lines_def np_dot_mv_def)
    with assms show False by simp
  qed
  have "length K = length U"
  proof (rule ccontr)
    assume "length K \<noteq> length U"
    then have "energy_lines data U = Inl ValueError"
      using Some nc by (simp add: energy_lines_def np_dot_mv_def np_dot_vv_def)
    with assms show False by simp
  qed
  with Some nc show ?thesis by simp
qed

lemma energy_lines_mismatch:
  assumes "data_stiffness data = Some K" and "\<not> (length K = length U \<and> ncols K = length U)"
  shows "energy_lines data U = Inl ValueError"
  using assms by (auto simp: energy_lines_def np_dot_mv_def np_dot_vv_def)

lemma generate_report_energy_raises:
  assumes "data_force data = Some F" and "data_displacement data = Some U"
    and "energy_lines data U = Inl e"
  shows "\<exists>e'. generate_report data = Inl e'"
  using assms by (auto simp: generate_report_def Let_def split: sum.splits)

text \<open>
  Claim C7. For a loaded displacement vector \<open>U\<close>, reported together with the force
  vector, the maximum displacement of the report is \<open>max |U| * 1000\<close> millimetres, and the
  report flags that the limit is exceeded exactly when that value is strictly greater than
  10, and that the displacements are within limits otherwise. The report is produced
  whenever \<open>U\<close> is not empty and the stiffness matrix, if one is loaded, is square of the
  dimension of \<open>U\<close>.
\<close>

theorem report_displacement_limit:
  assumes "data_force data = Some F" and "data_displacement data = Some U"
  shows "(U \<noteq> [] \<and>
          (case data_stiffness data of None \<Rightarrow> True | Some K \<Rightarrow> square_matrix (length U) K) \<longrightarrow>
            (\<exists>rep. generate_report data = Inr rep)) \<and>
         (\<forall>rep. generate_report data = Inr rep \<longrightarrow>
            max_displacement_mm rep = Some (Max (set (map abs U)) * 1000) \<and>
            limit rep = Some (if 10 < Max (set (map abs U)) * 1000 then Exceeds_limit
                              else Within_limits))"
  using generate_report_returns [OF assms] generate_report_response [OF assms]
  by blast

theorem report_displacement_limit_witness:
  "(\<exists>rep. generate_report \<lparr>data_stiffness = None, data_mass = None,
                             data_force = Some [100, - 50],
                             data_displacement = Some [2 / 100, - 1 / 1000]\<rparr> = Inr rep \<and>
          max_displacement_mm rep = Some 20 \<and> limit rep = Some Exceeds_limit) \<and>
   (\<exists>rep. generate_report \<lparr>data_stiffness = Some [[2, 0], [0, 2]], data_mass = None,
                             data_force = Some [100, - 50],
                             data_displacement = Some [- 1 / 100, 1 / 1000]\<rparr> = Inr rep \<and>
          max_displacement_mm rep = Some 10 \<and> limit rep = Some Within_limits)"
proof
  let ?d = "\<lparr>data_stiffness = None, data_mass = None, data_force = Some [100, - 50],
             data_displacement = Some [2 / 100, - 1 / 1000]\<rparr>"
  have t: "(\<exists>rep. generate_report ?d = Inr rep) \<and>
         (\<forall>rep. generate_report ?d = Inr rep \<longrightarrow>
            max_displacement_mm rep = Some 20 \<and> limit rep = Some Exceeds_limit)"
    using report_displacement_limit [of ?d "[100, - 50]" "[2 / 100, - 1 / 1000]"] by simp
  then show "\<exists>rep. generate_report ?d = Inr rep \<and>
          max_displacement_mm rep = Some 20 \<and> limit rep = Some Exceeds_limit"
    by blast
next
  let ?d = "\<lparr>data_stiffness = Some [[2, 0], [0, 2]], data_mass = None,
             data_force = Some [100, - 50], data_displacement = Some [- 1 / 100, 1 / 1000]\<rparr>"
  have t: "(\<exists>rep. generate_report ?d = Inr rep) \<and>
         (\<forall>rep. generate_report ?d = Inr rep \<longrightarrow>
            max_displacement_mm rep = Some 10 \<and> limit rep = Some Within_limits)"
    using report_displacement_limit [of ?d "[100, - 50]" "[- 1 / 100, 1 / 1000]"]
    by (simp add: square_matrix_def)
  then show "\<exists>rep. generate_report ?d = Inr rep \<and>
          max_displacement_mm rep = Some 10 \<and> limit rep = Some Within_limits"
    by blast
qed

text \<open>
  Claim C8 as stated has the report omit the energy when the loaded stiffness matrix does
  not match the displacement vector. The code tests only that the key is present: with a
  3 by 3 stiffness matrix and a displacement vector of length 2 the product raises.
\<close>

theorem strain_energy_mismatch_counterexample:
  "generate_report \<lparr>data_stiffness = Some [[1, 0, 0], [0, 1, 0], [0, 0, 1]], data_mass = None,
                    data_force = Some [100, - 50],
                    data_displacement = Some [1 / 1000, 2 / 1000]\<rparr> = Inl ValueError"
  by (simp add: generate_report_def stiffness_lines_def np_diag_def ncols_def np_min_def
        np_max_def energy_lines_def np_dot_mv_def)

text \<open>
  Claim C8, amended. For loaded force and displacement vectors, with the displacement
  vector \<open>U\<close> not empty: the strain energy is computed only when a stiffness matrix of
  the dimension of \<open>U\<close> is loaded, and with such a matrix \<open>K\<close> it equals
  \<open>0.5 * U\<^sup>T K U\<close>; when no stiffness matrix is loaded the report does not fail and
  has no energy value; when a stiffness matrix is loaded whose dimension does not match
  \<open>U\<close>, the report raises instead of leaving the energy out.
\<close>

theorem strain_energy_when_stiffness_loaded:
  assumes "data_force data = Some F" and "data_displacement data = Some U" and "U \<noteq> []"
  shows "(\<forall>rep. generate_report data = Inr rep \<and> strain_energy rep \<noteq> None \<longrightarrow>
            (\<exists>K. data_stiffness data = Some K \<and> length K = length U \<and> ncols K = length U)) \<and>
         (\<forall>K. data_stiffness data = Some K \<and> square_matrix (length U) K \<longrightarrow>
            (\<exists>rep. generate_report data = Inr rep \<and>
                   strain_energy rep =
                     Some (0.5 * (\<Sum>i<length U. U ! i * (\<Sum>j<length U. K ! i ! j * U ! j))))) \<and>
         (data_stiffness data = None \<longrightarrow>
            (\<exists>rep. generate_report data = Inr rep \<and> strain_energy rep = None)) \<and>
         (\<forall>K. data_stiffness data = Some K \<and>
              \<not> (length K = length U \<and> ncols K = length U) \<longrightarrow>
            (\<exists>e. generate_report data = Inl e))"
proof -
  have only: "\<exists>K. data_stiffness data = Some K \<and> length K = length U \<and> ncols K = length U"
    if r: "generate_report data = Inr rep \<and> strain_energy rep \<noteq> None" for rep
  proof -
    obtain e where e: "strain_energy rep = Some e" using r by auto
    have "energy_lines data U = Inr (strain_energy rep)"
      using generate_report_response [OF assms(1,2)] r by simp
    then show ?thesis using energy_lines_value [of data U e] e by simp
  qed
  have some: "\<exists>rep. generate_report data = Inr rep \<and>
                   strain_energy rep =
                     Some (0.5 * (\<Sum>i<length U. U ! i * (\<Sum>j<length U. K ! i ! j * U ! j)))"
    if k: "data_stiffness data = Some K \<and> square_matrix (length U) K" for K
  proof -
    obtain rep where rep: "generate_report data = Inr rep"
      using generate_report_returns [OF assms] k by auto
    have "energy_lines data U = Inr (strain_energy rep)"
      using generate_report_response [OF assms(1,2) rep] by simp
    then have "strain_energy rep =
        Some (0.5 * (\<Sum>i<length U. U ! i * (\<Sum>j<length U. K ! i ! j * U ! j)))"
      using energy_lines_square [OF _ _ assms(3), of data K] k by simp
    with rep show ?thesis by blast
  qed
  have none: "\<exists>rep. generate_report data = Inr rep \<and> strain_energy rep = None"
    if n: "data_stiffness data = None"
  proof -
    obtain rep where rep: "generate_report data = Inr rep"
      using generate_report_returns [OF assms] n by auto
    have "energy_lines data U = Inr (strain_energy rep)"
      using generate_report_response [OF assms(1,2) rep] by simp
    then have "strain_energy rep = None" using n by (simp add: energy_lines_def)
    with rep show ?thesis by blast
  qed
  have raises: "\<exists>e. generate_report data = Inl e"
    if k: "data_stiffness data = Some K \<and> \<not> (length K = length U \<and> ncols K = length U)" for K
  proof -
    have "energy_lines data U = Inl ValueError"
      using energy_lines_mismatch [of data K U] k by simp
    then show ?thesis using generate_report_energy_raises [OF assms(1,2)] by simp
  qed
  show ?thesis using only some none raises by blast
qed

theorem strain_energy_when_stiffness_loaded_witness:
  "(\<exists>rep. generate_report \<lparr>data_stiffness = None, data_mass = None,
                             data_force = Some [100, - 50],
                             data_displacement = Some [1, 2]\<rparr> = Inr rep \<and>
          strain_energy rep = None) \<and>
   (\<exists>rep. generate_report \<lparr>data_stiffness = Some [[2, 1], [1, 4]], data_mass = None,
                             data_force = Some [100, - 50],
                             data_displacement = Some [1, 2]\<rparr> = Inr rep \<and>
          strain_energy rep = Some 11) \<and>
   (\<exists>e. generate_report \<lparr>data_stiffness = Some [[1, 0, 0], [0, 1, 0], [0, 0, 1]],
                           data_mass = None, data_force = Some [100, - 50],
                           data_displacement = Some [1, 2]\<rparr> = Inl e)"
proof (intro conjI)
  let ?d = "\<lparr>data_stiffness = None, data_mass = None, data_force = Some [100, - 50],
             data_displacement = Some [1, 2 :: real]\<rparr>"
  show "\<exists>rep. generate_report ?d = Inr rep \<and> strain_energy rep = None"
    using strain_energy_when_stiffness_loaded [of ?d "[100, - 50]" "[1, 2]"] by simp
next
  let ?d = "\<lparr>data_stiffness = Some [[2, 1], [1, 4]], data_mass = None,
             data_force = Some [100, - 50], data_displacement = Some [1, 2 :: real]\<rparr>"
  have sq: "square_matrix (length [1, 2 :: real]) [[2, 1], [1, 4 :: real]]"
    by (simp add: square_matrix_def)
  have "\<exists>rep. generate_report ?d = Inr rep \<and>
              strain_energy rep =
                Some (0.5 * (\<Sum>i<length [1, 2 :: real]. [1, 2 :: real] ! i *
                        (\<Sum>j<length [1, 2 :: real]. [[2, 1], [1, 4]] ! i ! j * [1, 2] ! j)))"
    using strain_energy_when_stiffness_loaded [of ?d "[100, - 50]" "[1, 2]"] sq
    by (simp del: length_Cons list.size)
  moreover have "(0.5 :: real) * (\<Sum>i<length [1, 2 :: real]. [1, 2 :: real] ! i *
                        (\<Sum>j<length [1, 2 :: real]. [[2, 1], [1, 4]] ! i ! j * [1, 2] ! j)) = 11"
    by (simp add: lessThan_Suc numeral_2_eq_2)
  ultimately show "\<exists>rep. generate_report ?d = Inr rep \<and> strain_energy rep = Some 11"
    by simp
next
  let ?d = "\<lparr>data_stiffness = Some [[1, 0, 0], [0, 1, 0], [0, 0, 1]], data_mass = None,
             data_force = Some [100, - 50], data_displacement = Some [1, 2 :: real]\<rparr>"
  show "\<exists>e. generate_report ?d = Inl e"
    using strain_energy_when_stiffness_loaded [of ?d "[100, - 50]" "[1, 2]"] by simp
qed

section \<open>Structural response: claims\<close>

lemma component_length:
  assumes "a \<le> 2" and "nn \<le> length d div 6"
  shows "length (take nn (slice_from a 6 d)) = nn"
proof -
  have "length (slice_from a 6 d) = (length d - a + 5) div 6"
    by (simp add: slice_from_def length_strided)
  moreover have "length d div 6 \<le> (length d - a + 5) div 6"
    using assms(1) by (intro div_le_mono) arith
  ultimately show ?thesis using assms(2) by simp
qed

lemma component_nth:
  assumes "a \<le> 2" and "nn \<le> length d div 6" and "k < nn"
  shows "take nn (slice_from a 6 d) ! k = d ! (6 * k + a)"
proof -
  have k: "k < length (take nn (slice_from a 6 d))"
    using assms component_length [OF assms(1,2)] by simp
  then have k': "k < length (strided 6 (drop a d))" by (simp add: slice_from_def)
  have le: "a \<le> length d" using assms by arith
  have "take nn (slice_from a 6 d) ! k = strided 6 (drop a d) ! k"
    using assms(3) by (simp add: slice_from_def)
  also have "\<dots> = drop a d ! (k * 6)"
    using nth_strided [OF _ k'] by simp
  also have "\<dots> = d ! (6 * k + a)"
    using le by (simp add: add.commute mult.commute)
  finally show ?thesis .
qed

lemma np_add_same_length:
  assumes "length xs = length ys"
  shows "np_add xs ys = Inr (map2 (+) xs ys)"
  using assms by (simp add: np_add_def)

lemma np_sqrt_sum_squares:
  "np_sqrt (x ^ 2 + y ^ 2 + z ^ 2) = Some (sqrt (x ^ 2 + y ^ 2 + z ^ 2))"
  by (simp add: np_sqrt_def not_less)

lemma plot_response_analysis_components:
  assumes len: "length force \<le> length displacement"
  defines "nn \<equiv> length force div 6"
  defines "dx \<equiv> take nn (slice_from 0 6 displacement)"
  defines "dy \<equiv> (if length displacement > 1 then take nn (slice_from 1 6 displacement)
                   else np_zeros_like dx)"
  defines "dz \<equiv> (if length displacement > 2 then take nn (slice_from 2 6 displacement)
                   else np_zeros_like dx)"
  shows "\<exists>res. plot_response_analysis force displacement = Inr res \<and>
               n_nodes res = nn \<and>
               disp_magnitude res =
                 map np_sqrt (map2 (+) (map2 (+) (np_square dx) (np_square dy)) (np_square dz))"
    and "length dx = nn" and "length dy = nn" and "length dz = nn"
    and "\<forall>k < nn. dx ! k = displacement ! (6 * k) \<and> dy ! k = displacement ! (6 * k + 1) \<and>
                    dz ! k = displacement ! (6 * k + 2)"
proof -
  have nn: "nn \<le> length displacement div 6"
    using len unfolding nn_def by (rule div_le_mono)
  show lx: "length dx = nn"
    unfolding dx_def using component_length [of 0 nn displacement] nn by simp
  show ly: "length dy = nn"
    unfolding dy_def using component_length [of 1 nn displacement] nn lx
    by (simp add: np_zeros_like_def)
  show lz: "length dz = nn"
    unfolding dz_def using component_length [of 2 nn displacement] nn lx
    by (simp add: np_zeros_like_def)
  show "\<forall>k < nn. dx ! k = displacement ! (6 * k) \<and> dy ! k = displacement ! (6 * k + 1) \<and>
                    dz ! k = displacement ! (6 * k + 2)"
  proof (intro allI impI)
    fix k assume k: "k < nn"
    then have "k < length displacement div 6" using nn by simp
    then have big: "length displacement > 2" by arith
    have "dx ! k = displacement ! (6 * k)"
      unfolding dx_def using component_nth [of 0 nn displacement k] k nn by simp
    moreover have "dy ! k = displacement ! (6 * k + 1)"
      unfolding dy_def using component_nth [of 1 nn displacement k] k nn big by simp
    moreover have "dz ! k = displacement ! (6 * k + 2)"
      unfolding dz_def using component_nth [of 2 nn displacement k] k nn big by simp
    ultimately show "dx ! k = displacement ! (6 * k) \<and> dy ! k = displacement ! (6 * k + 1) \<and>
                    dz ! k = displacement ! (6 * k + 2)"
      by simp
  qed
  have px: "plot_xy nn dx = Inr ()" and py: "plot_xy nn dy = Inr ()" and pz: "plot_xy nn dz = Inr ()"
    using lx ly lz by (simp_all add: plot_xy_def)
  have a1: "np_add (np_square dx) (np_square dy) = Inr (map2 (+) (np_square dx) (np_square dy))"
    using lx ly by (simp add: np_add_same_length np_square_def)
  have a2: "np_add (map2 (+) (np_square dx) (np_square dy)) (np_square dz) =
              Inr (map2 (+) (map2 (+) (np_square dx) (np_square dy)) (np_square dz))"
    using lx ly lz by (simp add: np_add_same_length np_square_def)
  show "\<exists>res. plot_response_analysis force displacement = Inr res \<and>
               n_nodes res = nn \<and>
               disp_magnitude res =
                 map np_sqrt (map2 (+) (map2 (+) (np_square dx) (np_square dy)) (np_square dz))"
    unfolding plot_response_analysis_def Let_def
    unfolding nn_def [symmetric]
    unfolding dx_def [symmetric]
    unfolding dy_def [symmetric] dz_def [symmetric]
    using px py pz a1 a2 by simp
qed

text \<open>
  Claim C6. For a force vector and a displacement vector over the same degrees of freedom
  (the displacement vector at least as long as the force vector), the number of nodes is
  \<open>len(force) // 6\<close> and the magnitude of node \<open>k\<close> is the Euclidean norm of its three
  translational displacement components, the entries \<open>6 k\<close>, \<open>6 k + 1\<close> and
  \<open>6 k + 2\<close> of the displacement vector. In particular a pair of length 12 whose
  rotational displacement components are zero gives exactly two magnitudes, the norms of
  the two triples \<open>(x, y, z)\<close>.
\<close>

theorem response_magnitude_per_node:
  assumes "length force \<le> length displacement"
  shows "\<exists>res. plot_response_analysis force displacement = Inr res \<and>
               n_nodes res = length force div 6 \<and>
               length (disp_magnitude res) = length force div 6 \<and>
               (\<forall>k < length force div 6.
                  disp_magnitude res ! k =
                    Some (sqrt ((displacement ! (6 * k)) ^ 2 + (displacement ! (6 * k + 1)) ^ 2 +
                                (displacement ! (6 * k + 2)) ^ 2))) \<and>
               (\<forall>x0 y0 z0 x1 y1 z1.
                  length force = 12 \<and>
                  displacement = [x0, y0, z0, 0, 0, 0, x1, y1, z1, 0, 0, 0] \<longrightarrow>
                  disp_magnitude res = [Some (sqrt (x0 ^ 2 + y0 ^ 2 + z0 ^ 2)),
                                        Some (sqrt (x1 ^ 2 + y1 ^ 2 + z1 ^ 2))])"
proof -
  define nn where "nn = length force div 6"
  define dx where "dx = take nn (slice_from 0 6 displacement)"
  define dy where "dy = (if length displacement > 1 then take nn (slice_from 1 6 displacement)
                         else np_zeros_like dx)"
  define dz where "dz = (if length displacement > 2 then take nn (slice_from 2 6 displacement)
                         else np_zeros_like dx)"
  note facts = plot_response_analysis_components [OF assms, folded nn_def, folded dx_def,
      folded dy_def dz_def]
  obtain res where res: "plot_response_analysis force displacement = Inr res"
    and nodes: "n_nodes res = nn"
    and mag: "disp_magnitude res =
                map np_sqrt (map2 (+) (map2 (+) (np_square dx) (np_square dy)) (np_square dz))"
    using facts(1) by blast
  have lens: "length dx = nn" "length dy = nn" "length dz = nn"
    using facts(2,3,4) by simp_all
  have lm: "length (disp_magnitude res) = nn"
    using mag lens by (simp add: np_square_def)
  have el: "disp_magnitude res ! k =
              Some (sqrt ((displacement ! (6 * k)) ^ 2 + (displacement ! (6 * k + 1)) ^ 2 +
                          (displacement ! (6 * k + 2)) ^ 2))"
    if k: "k < nn" for k
  proof -
    have "disp_magnitude res ! k = np_sqrt ((dx ! k) ^ 2 + (dy ! k) ^ 2 + (dz ! k) ^ 2)"
      using mag lens k by (simp add: np_square_def)
    also have "\<dots> = Some (sqrt ((dx ! k) ^ 2 + (dy ! k) ^ 2 + (dz ! k) ^ 2))"
      by (rule np_sqrt_sum_squares)
    finally show ?thesis using facts(5) k by simp
  qed
  have twelve: "disp_magnitude res = [Some (sqrt (x0 ^ 2 + y0 ^ 2 + z0 ^ 2)),
                                      Some (sqrt (x1 ^ 2 + y1 ^ 2 + z1 ^ 2))]"
    if d: "length force = 12 \<and> displacement = [x0, y0, z0, 0, 0, 0, x1, y1, z1, 0, 0, 0]"
    for x0 y0 z0 x1 y1 z1
  proof -
    have n2: "nn = 2" using d by (simp add: nn_def)
    have "disp_magnitude res ! 0 = Some (sqrt (x0 ^ 2 + y0 ^ 2 + z0 ^ 2))"
      using el [of 0] n2 d by simp
    moreover have "disp_magnitude res ! 1 = Some (sqrt (x1 ^ 2 + y1 ^ 2 + z1 ^ 2))"
      using el [of 1] n2 d by simp
    moreover have "length (disp_magnitude res) = 2" using lm n2 by simp
    ultimately show ?thesis
      by (cases "disp_magnitude res" rule: list.exhaust)
         (auto simp: length_Suc_conv numeral_2_eq_2)
  qed
  show ?thesis
    using res nodes lm el twelve unfolding nn_def by blast
qed

theorem response_magnitude_per_node_witness:
  "\<exists>res. plot_response_analysis [10, 20, 30, 1, 2, 3, 40, 50, 60, 4, 5, 6]
                                 [3, 4, 0, 0, 0, 0, 1, 2, 2, 0, 0, 0] = Inr res \<and>
         n_nodes res = 2 \<and>
         disp_magnitude res = [Some (sqrt (3 ^ 2 + 4 ^ 2 + 0 ^ 2)), Some (sqrt (1 ^ 2 + 2 ^ 2 + 2 ^ 2))]"
proof -
  let ?f = "[10, 20, 30, 1, 2, 3, 40, 50, 60, 4, 5, 6 :: real]"
  let ?d = "[3, 4, 0, 0, 0, 0, 1, 2, 2, 0, 0, 0 :: real]"
  obtain res where res: "plot_response_analysis ?f ?d = Inr res"
    and nodes: "n_nodes res = length ?f div 6"
    and tw: "\<forall>x0 y0 z0 x1 y1 z1.
                  length ?f = 12 \<and> ?d = [x0, y0, z0, 0, 0, 0, x1, y1, z1, 0, 0, 0] \<longrightarrow>
                  disp_magnitude res = [Some (sqrt (x0 ^ 2 + y0 ^ 2 + z0 ^ 2)),
                                        Some (sqrt (x1 ^ 2 + y1 ^ 2 + z1 ^ 2))]"
    using response_magnitude_per_node [of ?f ?d] by auto
  have "length ?f = 12" by simp
  with tw have "disp_magnitude res =
      [Some (sqrt (3 ^ 2 + 4 ^ 2 + 0 ^ 2)), Some (sqrt (1 ^ 2 + 2 ^ 2 + 2 ^ 2))]"
    by blast
  with res nodes show ?thesis by simp
qed

section \<open>Block-wise synthesis: the block loops\<close>

lemma block_starts_set:
  assumes "block_size dvd i"
  shows "j \<in> set (block_starts i sz) \<longleftrightarrow> i \<le> j \<and> j < sz \<and> block_size dvd j"
  using assms
proof (induction i sz rule: block_starts.induct)
  case (1 i sz)
  show ?case
  proof (cases "i < sz")
    case True
    have d: "block_size dvd i + block_size" using 1(2) by simp
    have step: "j = i \<or> i + block_size \<le> j" if ij: "i \<le> j" and bj: "block_size dvd j"
    proof -
      obtain a where a: "i = block_size * a" using 1(2) by (auto elim: dvdE)
      obtain b where b: "j = block_size * b" using bj by (auto elim: dvdE)
      have "a \<le> b" using ij a b by (simp add: block_size_def)
      then have "a = b \<or> Suc a \<le> b" by arith
      then show ?thesis
      proof
        assume "a = b" then show ?thesis using a b by simp
      next
        assume "Suc a \<le> b"
        then have "block_size * Suc a \<le> block_size * b" by (rule mult_le_mono2)
        then show ?thesis using a b by simp
      qed
    qed
    have "j \<in> set (block_starts i sz) \<longleftrightarrow> j = i \<or> j \<in> set (block_starts (i + block_size) sz)"
      using True by (subst block_starts.simps) simp
    also have "\<dots> \<longleftrightarrow> j = i \<or> (i + block_size \<le> j \<and> j < sz \<and> block_size dvd j)"
      using 1(1) [OF True d] by simp
    also have "\<dots> \<longleftrightarrow> i \<le> j \<and> j < sz \<and> block_size dvd j"
      using True 1(2) step by auto
    finally show ?thesis .
  next
    case False
    then have "block_starts i sz = []" by (subst block_starts.simps) simp
    then show ?thesis using False by simp
  qed
qed

lemma block_start_of:
  "block_size dvd (c div block_size * block_size)" 
  "c div block_size * block_size \<le> c"
  "c < c div block_size * block_size + block_size"
proof -
  show "block_size dvd (c div block_size * block_size)" by simp
  show "c div block_size * block_size \<le> c" by simp
  have "0 < block_size" by (simp add: block_size_def)
  then have "c mod block_size < block_size" by simp
  moreover have "c = c div block_size * block_size + c mod block_size" by simp
  ultimately show "c < c div block_size * block_size + block_size" by linarith
qed

lemma block_start_unique:
  assumes "block_size dvd j"
  shows "j \<le> c \<and> c < j + block_size \<longleftrightarrow> j = c div block_size * block_size"
proof
  assume h: "j \<le> c \<and> c < j + block_size"
  obtain a where a: "j = a * block_size" using assms by (metis dvd_div_mult_self)
  have pos: "0 < block_size" by (simp add: block_size_def)
  have "c div block_size = a"
  proof (rule div_nat_eqI)
    show "block_size * a \<le> c" using h a by (simp add: mult.commute)
    show "c < block_size * Suc a" using h a by (simp add: mult.commute)
  qed
  then show "j = c div block_size * block_size" using a by simp
next
  assume "j = c div block_size * block_size"
  then show "j \<le> c \<and> c < j + block_size"
    using block_start_of(2,3) [of c] by simp
qed

lemma block_starts_member:
  assumes "c < sz"
  shows "c div block_size * block_size \<in> set (block_starts 0 sz)"
proof -
  have "c div block_size * block_size < sz"
    using assms block_start_of(2) [of c] by (rule_tac le_less_trans)
  then show ?thesis by (simp add: block_starts_set)
qed

lemma block_starts_dvd:
  assumes "j \<in> set (block_starts 0 sz)"
  shows "block_size dvd j" and "j < sz"
  using assms by (simp_all add: block_starts_set)

lemma fold_write_cols:
  assumes "\<forall>j \<in> set js. block_size dvd j"
  shows "fold (\<lambda>j ds'. write_block ds' i ei j (min (j + block_size) sz) (g j)) js ds r c =
           (if i \<le> r \<and> r < ei \<and> c < sz \<and> c div block_size * block_size \<in> set js
            then g (c div block_size * block_size) ! (r - i) ! (c - c div block_size * block_size)
            else ds r c)"
  using assms
proof (induction js arbitrary: ds)
  case Nil
  then show ?case by simp
next
  case (Cons j js)
  let ?b = "c div block_size * block_size"
  let ?f = "\<lambda>j ds'. write_block ds' i ei j (min (j + block_size) sz) (g j)"
  have dj: "block_size dvd j" using Cons.prems by simp
  have u: "j \<le> c \<and> c < j + block_size \<longleftrightarrow> j = ?b"
    using block_start_unique [OF dj] .
  have w: "?f j ds r c =
             (if i \<le> r \<and> r < ei \<and> c < sz \<and> j = ?b then g ?b ! (r - i) ! (c - ?b) else ds r c)"
    using u by (auto simp: write_block_def)
  have "fold ?f (j # js) ds r c = fold ?f js (?f j ds) r c" by simp
  also have "\<dots> = (if i \<le> r \<and> r < ei \<and> c < sz \<and> ?b \<in> set js
                     then g ?b ! (r - i) ! (c - ?b) else ?f j ds r c)"
    using Cons.IH [of "?f j ds"] Cons.prems by simp
  also have "\<dots> = (if i \<le> r \<and> r < ei \<and> c < sz \<and> ?b \<in> set (j # js)
                     then g ?b ! (r - i) ! (c - ?b) else ds r c)"
    by (simp only: w) auto
  finally show ?case .
qed

lemma fold_write_rows:
  assumes "\<forall>i \<in> set starts. block_size dvd i"
    and "\<And>i ds r c. F i ds r c =
           (if i \<le> r \<and> r < min (i + block_size) sz \<and> P c then h i r c else ds r c)"
  shows "fold F starts ds r c =
           (if r < sz \<and> r div block_size * block_size \<in> set starts \<and> P c
            then h (r div block_size * block_size) r c else ds r c)"
  using assms(1)
proof (induction starts arbitrary: ds)
  case Nil
  then show ?case by simp
next
  case (Cons i starts)
  let ?b = "r div block_size * block_size"
  have di: "block_size dvd i" using Cons.prems by simp
  have u: "i \<le> r \<and> r < i + block_size \<longleftrightarrow> i = ?b"
    using block_start_unique [OF di] .
  have w: "F i ds r c = (if r < sz \<and> i = ?b \<and> P c then h ?b r c else ds r c)"
    using u by (auto simp: assms(2))
  have "fold F (i # starts) ds r c = fold F starts (F i ds) r c" by simp
  also have "\<dots> = (if r < sz \<and> ?b \<in> set starts \<and> P c then h ?b r c else F i ds r c)"
    using Cons.IH [of "F i ds"] Cons.prems by simp
  also have "\<dots> = (if r < sz \<and> ?b \<in> set (i # starts) \<and> P c then h ?b r c else ds r c)"
    by (simp only: w) auto
  finally show ?case .
qed

section \<open>Block-wise synthesis: the entries of a block\<close>

lemma fill_diagonal_length: "length (fill_diagonal block off vals) = length block"
  by (simp add: fill_diagonal_def)

lemma fill_diagonal_nth:
  assumes "bi < length block"
  shows "fill_diagonal block off vals ! bi = (block ! bi)[off + bi := vals ! bi]"
  using assms by (simp add: fill_diagonal_def nth_enumerate_eq)

lemma np_zeros_length: "length (np_zeros h w) = h"
  by (simp add: np_zeros_def)

lemma np_zeros_nth:
  assumes "bi < h"
  shows "np_zeros h w ! bi = replicate w 0"
  using assms by (simp add: np_zeros_def)

lemma row_fill:
  assumes "bi < length blk"
  shows "fold (\<lambda>bj blk'. if P bj then set_entry blk' bi bj (v bj) else blk') [0..<w] blk =
           blk[bi := map (\<lambda>bj. if bj < w \<and> P bj then v bj else blk ! bi ! bj)
                         [0..<length (blk ! bi)]]"
proof (induction w)
  case 0
  then show ?case by (simp add: map_nth)
next
  case (Suc w)
  let ?f = "\<lambda>bj blk'. if P bj then set_entry blk' bi bj (v bj) else blk'"
  let ?R = "\<lambda>w. map (\<lambda>bj. if bj < w \<and> P bj then v bj else blk ! bi ! bj) [0..<length (blk ! bi)]"
  have step: "fold ?f [0..<Suc w] blk = ?f w (blk[bi := ?R w])"
    using Suc.IH by simp
  show ?case
  proof (cases "P w")
    case True
    have "(?R w)[w := v w] = ?R (Suc w)"
    proof (rule nth_equalityI)
      show "length ((?R w)[w := v w]) = length (?R (Suc w))" by simp
    next
      fix k assume "k < length ((?R w)[w := v w])"
      then have k: "k < length (blk ! bi)" by simp
      show "(?R w)[w := v w] ! k = ?R (Suc w) ! k"
      proof (cases "k = w")
        case True
        with k \<open>P w\<close> show ?thesis by simp
      next
        case False
        then have "k < Suc w \<longleftrightarrow> k < w" by arith
        with k False show ?thesis by simp
      qed
    qed
    then have "set_entry (blk[bi := ?R w]) bi w (v w) = blk[bi := ?R (Suc w)]"
      using assms by (simp add: set_entry_def)
    moreover have "?f w (blk[bi := ?R w]) = set_entry (blk[bi := ?R w]) bi w (v w)"
      using True by simp
    ultimately show ?thesis by (simp only: step)
  next
    case False
    then have "\<And>bj. (bj < Suc w \<and> P bj) = (bj < w \<and> P bj)"
      by (metis less_Suc_eq)
    then have eq: "?R w = ?R (Suc w)"
      by simp
    have "?f w (blk[bi := ?R w]) = blk[bi := ?R w]"
      using False by simp
    also have "\<dots> = blk[bi := ?R (Suc w)]"
      by (rule arg_cong [OF eq])
    finally show ?thesis by (simp only: step)
  qed
qed

lemma block_fill:
  assumes "h \<le> length blk"
  shows "fold (\<lambda>bi blk'. fold (\<lambda>bj blk''. if P bi bj then set_entry blk'' bi bj (v bi bj) else blk'')
                              [0..<w] blk')
              [0..<h] blk =
           map (\<lambda>bi. if bi < h
                      then map (\<lambda>bj. if bj < w \<and> P bi bj then v bi bj else blk ! bi ! bj)
                               [0..<length (blk ! bi)]
                      else blk ! bi)
               [0..<length blk]"
  using assms
proof (induction h)
  case 0
  then show ?case by (simp add: map_nth)
next
  case (Suc h)
  let ?row = "\<lambda>bi. map (\<lambda>bj. if bj < w \<and> P bi bj then v bi bj else blk ! bi ! bj)
                          [0..<length (blk ! bi)]"
  let ?M = "\<lambda>h. map (\<lambda>bi. if bi < h then ?row bi else blk ! bi) [0..<length blk]"
  let ?inner = "\<lambda>bi blk'. fold (\<lambda>bj blk''. if P bi bj then set_entry blk'' bi bj (v bi bj) else blk'')
                              [0..<w] blk'"
  have h: "h < length blk" using Suc.prems by simp
  have IH: "fold ?inner [0..<h] blk = ?M h" using Suc.IH h by simp
  have cur_h: "?M h ! h = blk ! h" using h by simp
  have "fold ?inner [0..<Suc h] blk = ?inner h (?M h)"
    using IH by simp
  also have "\<dots> = (?M h)[h := map (\<lambda>bj. if bj < w \<and> P h bj then v h bj else ?M h ! h ! bj)
                                    [0..<length (?M h ! h)]]"
    using row_fill [of h "?M h" "P h" "v h" w] h by simp
  also have "\<dots> = (?M h)[h := ?row h]"
    by (simp only: cur_h)
  also have "\<dots> = ?M (Suc h)"
  proof (rule nth_equalityI)
    show "length ((?M h)[h := ?row h]) = length (?M (Suc h))" by simp
  next
    fix k assume "k < length ((?M h)[h := ?row h])"
    then have k: "k < length blk" by simp
    show "(?M h)[h := ?row h] ! k = ?M (Suc h) ! k"
    proof (cases "k = h")
      case True
      with k show ?thesis by simp
    next
      case False
      then have "k < Suc h \<longleftrightarrow> k < h" by arith
      with k False show ?thesis by simp
    qed
  qed
  finally show ?case .
qed

lemma band_fill_zeros_nth:
  assumes "bi < h" and "bj < w"
  shows "band_fill i j h w (np_zeros h w) ! bi ! bj =
           (if abs_diff (i + bi) (j + bj) \<le> 50 then band_value (abs_diff (i + bi) (j + bj)) else 0)"
proof -
  have "band_fill i j h w (np_zeros h w) =
          map (\<lambda>bi. if bi < h
                     then map (\<lambda>bj. if bj < w \<and> abs_diff (i + bi) (j + bj) \<le> 50
                                     then band_value (abs_diff (i + bi) (j + bj))
                                     else np_zeros h w ! bi ! bj)
                              [0..<length (np_zeros h w ! bi)]
                     else np_zeros h w ! bi)
              [0..<length (np_zeros h w)]"
    unfolding band_fill_def Let_def
    using block_fill [of h "np_zeros h w" "\<lambda>bi bj. abs_diff (i + bi) (j + bj) \<le> 50"
                         "\<lambda>bi bj. band_value (abs_diff (i + bi) (j + bj))" w]
    by (simp add: np_zeros_length)
  then show ?thesis
    using assms by (simp add: np_zeros_length np_zeros_nth)
qed

lemma band_fill_zeros_shape:
  "length (band_fill i j h w (np_zeros h w)) = h"
  "bi < h \<Longrightarrow> length (band_fill i j h w (np_zeros h w) ! bi) = w"
proof -
  have eq: "band_fill i j h w (np_zeros h w) =
          map (\<lambda>bi. if bi < h
                     then map (\<lambda>bj. if bj < w \<and> abs_diff (i + bi) (j + bj) \<le> 50
                                     then band_value (abs_diff (i + bi) (j + bj))
                                     else np_zeros h w ! bi ! bj)
                              [0..<length (np_zeros h w ! bi)]
                     else np_zeros h w ! bi)
              [0..<length (np_zeros h w)]"
    unfolding band_fill_def Let_def
    using block_fill [of h "np_zeros h w" "\<lambda>bi bj. abs_diff (i + bi) (j + bj) \<le> 50"
                         "\<lambda>bi bj. band_value (abs_diff (i + bi) (j + bj))" w]
    by (simp add: np_zeros_length)
  show "length (band_fill i j h w (np_zeros h w)) = h"
    by (simp add: eq np_zeros_length)
  show "bi < h \<Longrightarrow> length (band_fill i j h w (np_zeros h w) ! bi) = w"
    by (simp add: eq np_zeros_length np_zeros_nth)
qed

lemma stiffness_block_nth:
  assumes "bi < min (i + block_size) sz - i" and "bj < min (j + block_size) sz - j"
  shows "stiffness_block sz i j ! bi ! bj =
           (if abs_diff i j < block_size * 2 then
              (if i = j then (if bi = bj then diagonal_value (i + bi) else 0)
               else if abs_diff i j \<le> block_size then
                 (if abs_diff (i + bi) (j + bj) \<le> 50
                  then band_value (abs_diff (i + bi) (j + bj)) else 0)
               else 0)
            else 0)"
proof -
  let ?h = "min (i + block_size) sz - i"
  let ?w = "min (j + block_size) sz - j"
  have zero: "np_zeros ?h ?w ! bi ! bj = 0"
    using assms by (simp add: np_zeros_nth)
  have diag: "fill_diagonal (np_zeros ?h ?w) 0 (map diagonal_value [i..<min (i + block_size) sz]) ! bi ! bj =
                (if bi = bj then diagonal_value (i + bi) else 0)"
  proof -
    have "fill_diagonal (np_zeros ?h ?w) 0 (map diagonal_value [i..<min (i + block_size) sz]) ! bi =
            (replicate ?w 0)[bi := diagonal_value (i + bi)]"
    proof -
      have "i + bi < min (i + block_size) sz" using assms(1) by linarith
      then have "[i..<min (i + block_size) sz] ! bi = i + bi" by (rule nth_upt)
      then show ?thesis
        using assms(1) by (simp add: fill_diagonal_nth np_zeros_length np_zeros_nth)
    qed
    then show ?thesis using assms(2) by (simp add: nth_list_update)
  qed
  have band: "band_fill i j ?h ?w (np_zeros ?h ?w) ! bi ! bj =
                (if abs_diff (i + bi) (j + bj) \<le> 50
                 then band_value (abs_diff (i + bi) (j + bj)) else 0)"
    using band_fill_zeros_nth [OF assms] .
  show ?thesis
  proof (cases "i = j")
    case True
    with zero diag show ?thesis
      unfolding stiffness_block_def Let_def by auto
  next
    case False
    with zero band show ?thesis
      unfolding stiffness_block_def Let_def by auto
  qed
qed

lemma create_stiffness_block:
  assumes r: "r < sz" and c: "c < sz"
  shows "create_stiffness sz r c =
           stiffness_block sz (r div block_size * block_size) (c div block_size * block_size)
             ! (r - r div block_size * block_size) ! (c - c div block_size * block_size)"
proof -
  let ?starts = "block_starts 0 sz"
  let ?F = "\<lambda>i ds. fold (\<lambda>j ds'. write_block ds' i (min (i + block_size) sz) j
                                  (min (j + block_size) sz) (stiffness_block sz i j)) ?starts ds"
  let ?P = "\<lambda>c. c < sz \<and> c div block_size * block_size \<in> set ?starts"
  let ?h = "\<lambda>i r c. stiffness_block sz i (c div block_size * block_size)
                       ! (r - i) ! (c - c div block_size * block_size)"
  have dv: "\<forall>j \<in> set ?starts. block_size dvd j"
    using block_starts_dvd(1) by blast
  have F: "?F i ds r c = (if i \<le> r \<and> r < min (i + block_size) sz \<and> ?P c then ?h i r c else ds r c)"
    for i ds r c
    using fold_write_cols [OF dv, where ds = ds and i = i and ei = "min (i + block_size) sz"
                             and sz = sz and g = "stiffness_block sz i" and r = r and c = c]
    by simp
  have "create_stiffness sz r c =
          (if r < sz \<and> r div block_size * block_size \<in> set ?starts \<and> ?P c
           then ?h (r div block_size * block_size) r c else new_dataset r c)"
    unfolding create_stiffness_def
    by (rule fold_write_rows [OF dv, of ?F sz ?P ?h]) (rule F)
  then show ?thesis
    using r c block_starts_member [OF r] block_starts_member [OF c] by simp
qed

lemma block_offset_bound:
  assumes "r < sz"
  shows "r - r div block_size * block_size <
           min (r div block_size * block_size + block_size) sz - r div block_size * block_size"
  using assms block_start_of(2,3) [of r] by linarith

lemma create_stiffness_entry:
  assumes r: "r < sz" and c: "c < sz"
  shows "create_stiffness sz r c =
           (let i = r div block_size * block_size; j = c div block_size * block_size in
            if abs_diff i j < block_size * 2 then
              (if i = j then (if r = c then diagonal_value r else 0)
               else if abs_diff i j \<le> block_size then
                 (if abs_diff r c \<le> 50 then band_value (abs_diff r c) else 0)
               else 0)
            else 0)"
proof -
  let ?i = "r div block_size * block_size"
  let ?j = "c div block_size * block_size"
  have ri: "?i + (r - ?i) = r" using block_start_of(2) [of r] by simp
  have cj: "?j + (c - ?j) = c" using block_start_of(2) [of c] by simp
  have same: "r - ?i = c - ?j \<longleftrightarrow> r = c" if "?i = ?j"
    using that ri cj by metis
  show ?thesis
    unfolding create_stiffness_block [OF r c]
      stiffness_block_nth [OF block_offset_bound [OF r] block_offset_bound [OF c]] Let_def
    using same by (simp only: ri cj) auto
qed

lemma abs_diff_commute: "abs_diff a b = abs_diff b a"
  by (simp add: abs_diff_def abs_minus_commute)

lemma diagonal_value_positive: "0 < diagonal_value k"
proof -
  have "- 1 \<le> sin (real k / 1000)" by simp
  then have "- (1 / 10) \<le> sin (real k / 1000) / 10" by simp
  then have "0 < 1 + sin (real k / 1000) / 10" by linarith
  then show ?thesis by (simp add: diagonal_value_def)
qed

lemma block_elements_rect:
  assumes "\<forall>row \<in> set block. length row = w"
  shows "block_elements block = length block * w"
  using assms unfolding block_elements_def by (induction block) simp_all

lemma fill_diagonal_row_length:
  assumes "bi < length block"
  shows "length (fill_diagonal block off vals ! bi) = length (block ! bi)"
  using assms by (simp add: fill_diagonal_nth)

lemma stiffness_block_shape:
  "length (stiffness_block sz i j) = min (i + block_size) sz - i"
  "bi < min (i + block_size) sz - i \<Longrightarrow>
     length (stiffness_block sz i j ! bi) = min (j + block_size) sz - j"
proof -
  let ?h = "min (i + block_size) sz - i"
  let ?w = "min (j + block_size) sz - j"
  show "length (stiffness_block sz i j) = ?h"
    unfolding stiffness_block_def Let_def
    by (simp add: fill_diagonal_length np_zeros_length band_fill_zeros_shape(1))
  assume bi: "bi < ?h"
  then show "length (stiffness_block sz i j ! bi) = ?w"
    unfolding stiffness_block_def Let_def
    by (simp add: fill_diagonal_row_length np_zeros_length np_zeros_nth band_fill_zeros_shape(2))
qed

lemma stiffness_block_rows:
  assumes "row \<in> set (stiffness_block sz i j)"
  shows "length row = min (j + block_size) sz - j"
proof -
  obtain bi where "bi < length (stiffness_block sz i j)" "row = stiffness_block sz i j ! bi"
    using assms by (auto simp: in_set_conv_nth)
  then show ?thesis
    using stiffness_block_shape(1) [of sz i j]
      stiffness_block_shape(2) [where bi = bi and i = i and sz = sz and j = j] by simp
qed

lemma mass_block_length: "length (mass_block sz i) = min (i + block_size) sz - i"
  by (simp add: mass_block_def Let_def fill_diagonal_length np_zeros_length)

lemma mass_block_row:
  assumes "bi < min (i + block_size) sz - i"
  shows "mass_block sz i ! bi = (replicate sz 0)[i + bi := 0.054]"
  using assms by (simp add: mass_block_def Let_def fill_diagonal_nth np_zeros_length np_zeros_nth)

lemma mass_block_rows:
  assumes "row \<in> set (mass_block sz i)"
  shows "length row = sz"
proof -
  obtain bi where "bi < length (mass_block sz i)" "row = mass_block sz i ! bi"
    using assms by (auto simp: in_set_conv_nth)
  then show ?thesis
    using mass_block_row [where bi = bi and i = i and sz = sz] by (simp add: mass_block_length)
qed

lemma block_edge_bound: "min (i + block_size) sz - i \<le> 1000"
  by (simp add: block_size_def)

lemma create_mass_block:
  assumes r: "r < sz" and c: "c < sz"
  shows "create_mass sz r c =
           mass_block sz (r div block_size * block_size) ! (r - r div block_size * block_size) ! c"
proof -
  let ?starts = "block_starts 0 sz"
  let ?F = "\<lambda>i ds. write_block ds i (min (i + block_size) sz) 0 sz (mass_block sz i)"
  have dv: "\<forall>j \<in> set ?starts. block_size dvd j"
    using block_starts_dvd(1) by blast
  have F: "?F i ds r c = (if i \<le> r \<and> r < min (i + block_size) sz \<and> c < sz
                          then mass_block sz i ! (r - i) ! c else ds r c)" for i ds r c
    by (simp add: write_block_def)
  have "create_mass sz r c =
          (if r < sz \<and> r div block_size * block_size \<in> set ?starts \<and> c < sz
           then mass_block sz (r div block_size * block_size) ! (r - r div block_size * block_size) ! c
           else new_dataset r c)"
    unfolding create_mass_def
    by (rule fold_write_rows [OF dv, of ?F sz "\<lambda>c. c < sz" "\<lambda>i r c. mass_block sz i ! (r - i) ! c"])
       (rule F)
  then show ?thesis using r c block_starts_member [OF r] by simp
qed

lemma create_mass_entry:
  assumes r: "r < sz" and c: "c < sz"
  shows "create_mass sz r c = (if r = c then 0.054 else 0)"
proof -
  let ?i = "r div block_size * block_size"
  have ri: "?i + (r - ?i) = r" using block_start_of(2) [of r] by simp
  have "create_mass sz r c = (replicate sz 0)[?i + (r - ?i) := 0.054] ! c"
    using create_mass_block [OF r c] mass_block_row [OF block_offset_bound [OF r]] by simp
  then show ?thesis using r c by (simp only: ri) (simp add: nth_list_update)
qed

section \<open>The small test file: entries\<close>

lemma square_map_map:
  assumes "square_matrix n A"
  shows "square_matrix n (map (map f) A)"
  using assms by (auto simp: square_matrix_def list_all_iff)

lemma np_transpose_square:
  assumes sq: "square_matrix n A" and r: "r < n" and c: "c < n"
  shows "length (np_transpose A) = n" and "length (np_transpose A ! r) = n"
    and "np_transpose A ! r ! c = A ! c ! r"
proof -
  have n: "0 < n" using r by simp
  have nc: "ncols A = n" using square_ncols [OF sq n] .
  have len: "length A = n" using sq by (simp add: square_matrix_def)
  show "length (np_transpose A) = n" by (simp add: np_transpose_def nc)
  show "length (np_transpose A ! r) = n" using r by (simp add: np_transpose_def nc len)
  show "np_transpose A ! r ! c = A ! c ! r" using r c by (simp add: np_transpose_def nc len)
qed

lemma symmetrised_entry:
  assumes sq: "square_matrix n A" and r: "r < n" and c: "c < n"
  shows "length (map2 (map2 (\<lambda>a b. (a + b) / 2)) A (np_transpose A)) = n"
    and "length (map2 (map2 (\<lambda>a b. (a + b) / 2)) A (np_transpose A) ! r) = n"
    and "map2 (map2 (\<lambda>a b. (a + b) / 2)) A (np_transpose A) ! r ! c = (A ! r ! c + A ! c ! r) / 2"
proof -
  have len: "length A = n" using sq by (simp add: square_matrix_def)
  have row: "length (A ! r) = n" using square_row_length [OF sq r] .
  note t = np_transpose_square [OF sq r c]
  show "length (map2 (map2 (\<lambda>a b. (a + b) / 2)) A (np_transpose A)) = n"
    using len t(1) by simp
  have e: "map2 (map2 (\<lambda>a b. (a + b) / 2)) A (np_transpose A) ! r =
             map2 (\<lambda>a b. (a + b) / 2) (A ! r) (np_transpose A ! r)"
    using len t(1) r by simp
  show "length (map2 (map2 (\<lambda>a b. (a + b) / 2)) A (np_transpose A) ! r) = n"
    using e row t(2) by simp
  show "map2 (map2 (\<lambda>a b. (a + b) / 2)) A (np_transpose A) ! r ! c = (A ! r ! c + A ! c ! r) / 2"
    using e row t(2,3) c by simp
qed

lemma create_small_stiffness_entry:
  assumes sq: "square_matrix n rand" and r: "r < n" and c: "c < n"
  shows "create_small_stiffness rand ! r ! c =
           (if r = c then (rand ! r ! r * 10 ^ 10 + rand ! r ! r * 10 ^ 10) / 2 + 7 * 10 ^ 10
            else (rand ! r ! c * 10 ^ 10 + rand ! c ! r * 10 ^ 10) / 2)"
proof -
  define K where "K = map (map (\<lambda>x. x * 10 ^ 10)) rand"
  define K' where "K' = map2 (map2 (\<lambda>a b. (a + b) / 2)) K (np_transpose K)"
  have sqK: "square_matrix n K" unfolding K_def using square_map_map [OF sq] .
  have lenr: "length rand = n" using sq by (simp add: square_matrix_def)
  have Krc: "K ! a ! b = rand ! a ! b * 10 ^ 10" if "a < n" "b < n" for a b
    using that lenr square_row_length [OF sq that(1)] by (simp add: K_def)
  have K'len: "length K' = n" unfolding K'_def using symmetrised_entry(1) [OF sqK r c] .
  have K'row: "length (K' ! a) = n" if "a < n" for a
    unfolding K'_def using symmetrised_entry(2) [OF sqK that that] .
  have K'rc: "K' ! a ! b = (rand ! a ! b * 10 ^ 10 + rand ! b ! a * 10 ^ 10) / 2"
    if "a < n" "b < n" for a b
    unfolding K'_def using symmetrised_entry(3) [OF sqK that] Krc that by simp
  have sqK': "square_matrix n K'"
    using K'len K'row by (auto simp: square_matrix_def list_all_iff in_set_conv_nth)
  have n: "0 < n" using r by simp
  have diag: "np_diag K' ! r = K' ! r ! r"
    using r K'len square_ncols [OF sqK' n] by (simp add: np_diag_def)
  have dlen: "length (np_diag K') = n"
    using K'len square_ncols [OF sqK' n] by (simp add: np_diag_def)
  have row: "create_small_stiffness rand ! r = (K' ! r)[r := K' ! r ! r + 7 * 10 ^ 10]"
    unfolding create_small_stiffness_def Let_def K_def [symmetric] K'_def [symmetric]
    using r K'len diag dlen by (simp add: fill_diagonal_nth)
  have "(K' ! r)[r := K' ! r ! r + 7 * 10 ^ 10] ! c =
          (if r = c then K' ! r ! r + 7 * 10 ^ 10 else K' ! r ! c)"
    by (rule nth_list_update) (simp add: K'row [OF r] r)
  then have "create_small_stiffness rand ! r ! c =
               (if r = c then K' ! r ! r + 7 * 10 ^ 10 else K' ! r ! c)"
    by (simp only: row)
  then show ?thesis by (simp only: K'rc [OF r c] K'rc [OF r r])
qed

section \<open>Block-wise synthesis: claims\<close>

text \<open>
  Claim C5. For every matrix size, the synthesized stiffness matrix is symmetric and its
  diagonal is strictly positive. For the block-wise generator: the entry written at
  \<open>(r, c)\<close> equals the entry written at \<open>(c, r)\<close>, because a block and its mirror block
  are filled by the same rule on the distance \<open>|r - c|\<close>, and every diagonal entry is
  strictly positive. The same holds for the small test file, whatever matrix of entries
  between zero and one the random generator returns.
\<close>

theorem stiffness_symmetric_positive_diagonal:
  assumes "r < sz" and "c < sz"
  shows "create_stiffness sz r c = create_stiffness sz c r \<and>
         0 < create_stiffness sz r r \<and>
         (\<forall>rand. square_matrix sz rand \<and> list_all (list_all (\<lambda>x. 0 \<le> x \<and> x < 1)) rand \<longrightarrow>
            create_small_stiffness rand ! r ! c = create_small_stiffness rand ! c ! r \<and>
            0 < create_small_stiffness rand ! r ! r)"
proof -
  define E :: "nat \<Rightarrow> nat \<Rightarrow> nat \<Rightarrow> nat \<Rightarrow> real" where
    "E = (\<lambda>i j r c.
            if abs_diff i j < block_size * 2 then
              (if i = j then (if r = c then diagonal_value r else 0)
               else if abs_diff i j \<le> block_size then
                 (if abs_diff r c \<le> 50 then band_value (abs_diff r c) else 0)
               else 0)
            else 0)"
  have entry: "create_stiffness sz r c =
                 E (r div block_size * block_size) (c div block_size * block_size) r c"
    if "r < sz" "c < sz" for r c
    unfolding E_def using create_stiffness_entry [OF that] by (simp only: Let_def)
  have E_sym: "E i j r c = E j i c r" for i j r c
  proof -
    have ji: "abs_diff j i = abs_diff i j" and cr: "abs_diff c r = abs_diff r c"
      by (rule abs_diff_commute)+
    show ?thesis
    proof (cases "i = j")
      case True
      then show ?thesis unfolding E_def by (cases "r = c") simp_all
    next
      case False
      then have "j \<noteq> i" by simp
      with False show ?thesis unfolding E_def by (simp only: ji cr if_False)
    qed
  qed
  have E_diag: "E i i r r = diagonal_value r" for i r
    unfolding E_def by (simp add: abs_diff_def block_size_def)
  have sym: "create_stiffness sz r c = create_stiffness sz c r"
    using entry [OF assms] entry [OF assms(2,1)] E_sym by simp
  have pos: "0 < create_stiffness sz r r"
    using entry [OF assms(1,1)] E_diag diagonal_value_positive [of r] by simp
  have small: "create_small_stiffness rand ! r ! c = create_small_stiffness rand ! c ! r \<and>
               0 < create_small_stiffness rand ! r ! r"
    if h: "square_matrix sz rand \<and> list_all (list_all (\<lambda>x. 0 \<le> x \<and> x < 1)) rand" for rand
  proof -
    have sq: "square_matrix sz rand" using h by simp
    have "rand ! r \<in> set rand" using sq assms(1) by (simp add: square_matrix_def)
    moreover have "rand ! r ! r \<in> set (rand ! r)"
      using square_row_length [OF sq assms(1)] assms(1) by simp
    ultimately have nn: "0 \<le> rand ! r ! r" using h by (auto simp: list_all_iff)
    have s: "create_small_stiffness rand ! r ! c = create_small_stiffness rand ! c ! r"
    proof (cases "r = c")
      case True
      then show ?thesis by simp
    next
      case False
      then have "c \<noteq> r" by simp
      with False show ?thesis
        unfolding create_small_stiffness_entry [OF sq assms]
          create_small_stiffness_entry [OF sq assms(2,1)]
        by (simp add: add.commute)
    qed
    have "create_small_stiffness rand ! r ! r =
            (rand ! r ! r * 10 ^ 10 + rand ! r ! r * 10 ^ 10) / 2 + 7 * 10 ^ 10"
      using create_small_stiffness_entry [OF sq assms(1,1)] by simp
    with nn have "0 < create_small_stiffness rand ! r ! r" by simp
    with s show ?thesis by simp
  qed
  show ?thesis using sym pos small by blast
qed

theorem stiffness_symmetric_positive_diagonal_witness:
  "create_stiffness 2500 999 1000 = create_stiffness 2500 1000 999 \<and>
   0 < create_stiffness 2500 999 999 \<and>
   create_small_stiffness [[1 / 2, 1 / 4], [3 / 4, 0]] ! 0 ! 1 =
     create_small_stiffness [[1 / 2, 1 / 4], [3 / 4, 0]] ! 1 ! 0 \<and>
   0 < create_small_stiffness [[1 / 2, 1 / 4], [3 / 4, 0]] ! 1 ! 1"
proof -
  have a: "create_stiffness 2500 999 1000 = create_stiffness 2500 1000 999 \<and>
           0 < create_stiffness 2500 999 999"
    using stiffness_symmetric_positive_diagonal [of 999 2500 1000] by simp
  have sq: "square_matrix 2 [[1 / 2, 1 / 4], [3 / 4, 0 :: real]] \<and>
            list_all (list_all (\<lambda>x. 0 \<le> x \<and> x < 1)) [[1 / 2, 1 / 4], [3 / 4, 0 :: real]]"
    by (simp add: square_matrix_def)
  have lt: "(0 :: nat) < 2" "(1 :: nat) < 2" by simp_all
  have b: "create_small_stiffness [[1 / 2, 1 / 4], [3 / 4, 0]] ! 0 ! 1 =
             create_small_stiffness [[1 / 2, 1 / 4], [3 / 4, 0]] ! 1 ! 0"
    using stiffness_symmetric_positive_diagonal [OF lt(1) lt(2)] sq by blast
  have c: "0 < create_small_stiffness [[1 / 2, 1 / 4], [3 / 4, 0]] ! 1 ! 1"
    using stiffness_symmetric_positive_diagonal [OF lt(2) lt(2)] sq by blast
  show ?thesis using a b c by blast
qed

text \<open>
  Claim C4 as stated bounds every block by 1000 by 1000 elements. The mass loop allocates a
  strip of up to 1000 rows over all the columns: for the default size 60000 its first block
  has 1000 rows of 60000 entries.
\<close>

theorem mass_block_exceeds_counterexample:
  "0 \<in> set (block_starts 0 60000) \<and>
   length (mass_block 60000 0) = 1000 \<and>
   length (mass_block 60000 0 ! 0) = 60000 \<and>
   block_elements (mass_block 60000 0) = 60000000 \<and>
   \<not> block_elements (mass_block 60000 0) \<le> 1000 * 1000"
proof -
  have rows: "\<forall>row \<in> set (mass_block 60000 0). length row = 60000"
    using mass_block_rows by blast
  have len: "length (mass_block 60000 0) = 1000"
    by (simp add: mass_block_length block_size_def)
  have row0: "length (mass_block 60000 0 ! 0) = 60000"
    using rows len by simp
  have "block_elements (mass_block 60000 0) = 60000000"
    using block_elements_rect [OF rows] len by simp
  moreover have "0 \<in> set (block_starts 0 60000)"
    by (simp add: block_starts_set)
  ultimately show ?thesis using row0 len by simp
qed

text \<open>
  Claim C4, amended. For every matrix size \<open>n\<close>, the stiffness loops allocate one block of
  at most 1000 by 1000 elements per step, and the mass loop allocates one strip of at most
  1000 rows by \<open>n\<close> columns per step, so at most \<open>1000 n\<close> elements; every entry of the
  two \<open>n\<close> by \<open>n\<close> datasets is the entry of the block or strip that covers it.
\<close>

theorem block_allocation_bounds:
  assumes "i \<in> set (block_starts 0 sz)" and "j \<in> set (block_starts 0 sz)"
  shows "length (stiffness_block sz i j) \<le> 1000 \<and>
         (\<forall>row \<in> set (stiffness_block sz i j). length row \<le> 1000) \<and>
         block_elements (stiffness_block sz i j) \<le> 1000 * 1000 \<and>
         length (mass_block sz i) \<le> 1000 \<and>
         (\<forall>row \<in> set (mass_block sz i). length row = sz) \<and>
         block_elements (mass_block sz i) \<le> 1000 * sz \<and>
         (\<forall>r < sz. \<forall>c < sz.
            create_stiffness sz r c =
              stiffness_block sz (r div block_size * block_size) (c div block_size * block_size)
                ! (r - r div block_size * block_size) ! (c - c div block_size * block_size) \<and>
            create_mass sz r c =
              mass_block sz (r div block_size * block_size) ! (r - r div block_size * block_size) ! c)"
proof -
  have s1: "length (stiffness_block sz i j) \<le> 1000"
    using stiffness_block_shape(1) [where sz = sz and i = i and j = j] block_edge_bound [of i sz]
    by simp
  have srows: "\<forall>row \<in> set (stiffness_block sz i j). length row = min (j + block_size) sz - j"
    using stiffness_block_rows by blast
  then have s2: "\<forall>row \<in> set (stiffness_block sz i j). length row \<le> 1000"
    using block_edge_bound [of j sz] by simp
  have "block_elements (stiffness_block sz i j) =
          length (stiffness_block sz i j) * (min (j + block_size) sz - j)"
    using block_elements_rect [OF srows] .
  also have "\<dots> \<le> 1000 * 1000"
    using s1 block_edge_bound [of j sz] by (rule mult_le_mono)
  finally have s3: "block_elements (stiffness_block sz i j) \<le> 1000 * 1000" .
  have m1: "length (mass_block sz i) \<le> 1000"
    using mass_block_length [of sz i] block_edge_bound [of i sz] by simp
  have m2: "\<forall>row \<in> set (mass_block sz i). length row = sz"
    using mass_block_rows by blast
  have "block_elements (mass_block sz i) = length (mass_block sz i) * sz"
    using block_elements_rect [OF m2] .
  also have "\<dots> \<le> 1000 * sz"
    using m1 by (rule mult_le_mono1)
  finally have m3: "block_elements (mass_block sz i) \<le> 1000 * sz" .
  have w: "\<forall>r < sz. \<forall>c < sz.
            create_stiffness sz r c =
              stiffness_block sz (r div block_size * block_size) (c div block_size * block_size)
                ! (r - r div block_size * block_size) ! (c - c div block_size * block_size) \<and>
            create_mass sz r c =
              mass_block sz (r div block_size * block_size) ! (r - r div block_size * block_size) ! c"
    using create_stiffness_block create_mass_block by blast
  show ?thesis using s1 s2 s3 m1 m2 m3 w by blast
qed

theorem block_allocation_bounds_witness:
  "length (stiffness_block 2500 2000 1000) \<le> 1000 \<and>
   length (stiffness_block 2500 2000 1000 ! 499) \<le> 1000 \<and>
   block_elements (stiffness_block 2500 2000 1000) \<le> 1000 * 1000 \<and>
   length (mass_block 2500 2000) \<le> 1000 \<and>
   length (mass_block 2500 2000 ! 499) = 2500 \<and>
   block_elements (mass_block 2500 2000) \<le> 1000 * 2500 \<and>
   create_mass 2500 2499 2499 = mass_block 2500 2000 ! 499 ! 2499"
proof -
  have i: "2000 \<in> set (block_starts 0 2500)" and j: "1000 \<in> set (block_starts 0 2500)"
    by (simp_all add: block_starts_set block_size_def)
  note t = block_allocation_bounds [OF i j]
  have "stiffness_block 2500 2000 1000 ! 499 \<in> set (stiffness_block 2500 2000 1000)"
    by (rule nth_mem) (simp add: stiffness_block_shape(1) block_size_def)
  with t have s: "length (stiffness_block 2500 2000 1000 ! 499) \<le> 1000" by blast
  have "mass_block 2500 2000 ! 499 \<in> set (mass_block 2500 2000)"
    by (rule nth_mem) (simp add: mass_block_length block_size_def)
  with t have m: "length (mass_block 2500 2000 ! 499) = 2500" by blast
  have "create_mass 2500 2499 2499 =
          mass_block 2500 (2499 div block_size * block_size)
            ! (2499 - 2499 div block_size * block_size) ! 2499"
    using t by simp
  then have "create_mass 2500 2499 2499 = mass_block 2500 2000 ! 499 ! 2499"
    by (simp add: block_size_def)
  with t s m show ?thesis by blast
qed

end
